theory Spec2Isabelle
  imports Main "HOL-Library.Sublist" "HOL-Library.Word"
begin

section \<open>Host values shared by both source files\<close>

text \<open>A \<^verbatim>\<open>vscode.Uri\<close>, reduced to the components the two files look at.\<close>

record uri =
  scheme :: string
  authority :: string
  path :: string

text \<open>\<^verbatim>\<open>Array.prototype.join\<close> on strings.\<close>

fun js_join :: "string \<Rightarrow> string list \<Rightarrow> string" where
  "js_join sep [] = []"
| "js_join sep [x] = x"
| "js_join sep (x # y # ys) = x @ sep @ js_join sep (y # ys)"

text \<open>
  \<^verbatim>\<open>Uri.joinPath(uri, segment)\<close> replaces the path by
  \<^verbatim>\<open>posix.join(uri.path, segment)\<close>: the non-empty parts joined with a slash
  and normalised (empty and \<^verbatim>\<open>.\<close> segments dropped, \<^verbatim>\<open>..\<close> resolved
  against the segment before it, a trailing slash kept). On Windows a
  \<^verbatim>\<open>file\<close> URI is joined through its file-system path instead. The host throws
  for a URI with an empty path; the function is applied to the extension's own URI
  only, which has one.
\<close>

fun split_slash :: "string \<Rightarrow> string list" where
  "split_slash [] = [[]]"
| "split_slash (c # cs) =
    (if c = CHR ''/'' then [] # split_slash cs
     else (case split_slash cs of [] \<Rightarrow> [[c]] | s # ss \<Rightarrow> (c # s) # ss))"

fun normalize_segments :: "bool \<Rightarrow> string list \<Rightarrow> string list \<Rightarrow> string list" where
  "normalize_segments allowAboveRoot acc [] = rev acc"
| "normalize_segments allowAboveRoot acc (s # ss) =
    (if s = [] \<or> s = ''.'' then normalize_segments allowAboveRoot acc ss
     else if s = ''..'' then
       (case acc of
          [] \<Rightarrow> normalize_segments allowAboveRoot (if allowAboveRoot then [s] else []) ss
        | a # acc' \<Rightarrow>
            if a = ''..'' then normalize_segments allowAboveRoot (s # acc) ss
            else normalize_segments allowAboveRoot acc' ss)
     else normalize_segments allowAboveRoot (s # acc) ss)"

definition posix_normalize :: "string \<Rightarrow> string" where
  "posix_normalize p =
    (if p = [] then ''.''
     else
       (let isAbsolute = (hd p = CHR ''/'');
            trailingSeparator = (last p = CHR ''/'');
            body = js_join ''/'' (normalize_segments (\<not> isAbsolute) [] (split_slash p))
        in if body = [] then
             (if isAbsolute then ''/'' else if trailingSeparator then ''./'' else ''.'')
           else (if isAbsolute then ''/'' else []) @ body
                @ (if trailingSeparator then ''/'' else [])))"

definition posix_join :: "string \<Rightarrow> string \<Rightarrow> string" where
  "posix_join a b =
    (let joined = js_join ''/'' (filter (\<lambda>part. part \<noteq> []) [a, b])
     in if joined = [] then ''.'' else posix_normalize joined)"

definition joinPath :: "uri \<Rightarrow> string \<Rightarrow> uri" where
  "joinPath u seg = u\<lparr>path := posix_join (path u) seg\<rparr>"

text \<open>
  Values a configuration read can return; \<^verbatim>\<open>undefined\<close> is what
  \<^verbatim>\<open>config.get(key)\<close> returns for a key that has neither a value nor a declared
  default. Numbers are kept as integers: only their being zero matters here.
\<close>

datatype jsvalue =
    JUndefined
  | JNull
  | JBool bool
  | JNumber int
  | JString string
  | JArray "jsvalue list"
  | JObject "(string \<times> jsvalue) list"

text \<open>JavaScript's \<^verbatim>\<open>!v\<close> is true exactly for the falsy values.\<close>

fun falsy :: "jsvalue \<Rightarrow> bool" where
  "falsy JUndefined = True"
| "falsy JNull = True"
| "falsy (JBool b) = (\<not> b)"
| "falsy (JNumber n) = (n = 0)"
| "falsy (JString s) = (s = [])"
| "falsy (JArray xs) = False"
| "falsy (JObject entries) = False"

section \<open>supportedLanguages.ts\<close>

record LanguageInfo =
  languageId :: string
  wasmUri :: uri
  suffixes :: "string list"

text \<open>
  What the class reads from the editor: the installed extensions
  (\<^verbatim>\<open>vscode.extensions.getExtension(id)\<close> is defined exactly for the members of
  \<open>extensions\<close>) and the values set in the \<^verbatim>\<open>anycode\<close> section of the
  settings; a key that is not set is absent from \<open>anycode_config\<close>.
\<close>

record vscode_env =
  extensions :: "string set"
  anycode_config :: "string \<rightharpoonup> jsvalue"

text \<open>
  Modelled from the spec: the defaults the extension's manifest declares for its
  settings. The manifest is not among the sources; the specification gives
  \<^verbatim>\<open>language.<id>.enabled\<close> as a boolean setting with default
  \<^verbatim>\<open>true\<close>.
\<close>

definition declared_default :: "string \<Rightarrow> jsvalue" where
  "declared_default key =
    (if prefix ''language.'' key \<and> suffix ''.enabled'' key then JBool True else JUndefined)"

text \<open>
  \<^verbatim>\<open>config.get(key)\<close>, called with no default argument: the value set, else
  the declared default.
\<close>

definition config_get :: "(string \<rightharpoonup> jsvalue) \<Rightarrow> string \<Rightarrow> jsvalue" where
  "config_get cfg key = (case cfg key of None \<Rightarrow> declared_default key | Some v \<Rightarrow> v)"

text \<open>
  The object's state: the static table \<^verbatim>\<open>_all\<close>, the cache \<^verbatim>\<open>_filteredAll\<close>
  (\<open>None\<close> is \<^verbatim>\<open>undefined\<close>) and the number of times \<^verbatim>\<open>_onDidChange\<close> fired.
\<close>

record SupportedLanguages =
  all_languages :: "LanguageInfo list"
  filteredAll :: "LanguageInfo list option"
  fired :: nat

definition language_table :: "uri \<Rightarrow> LanguageInfo list" where
  "language_table extensionUri =
    [\<lparr>languageId = ''c'', wasmUri = joinPath extensionUri ''tree-sitter-c.wasm'',
       suffixes = [''c'', ''i'']\<rparr>,
     \<lparr>languageId = ''cpp'', wasmUri = joinPath extensionUri ''tree-sitter-cpp.wasm'',
       suffixes = [''cpp'', ''cc'', ''cxx'', ''c++'', ''hpp'', ''hh'', ''hxx'', ''h++'', ''h'',
         ''ii'', ''ino'', ''inl'', ''ipp'', ''ixx'', ''hpp.in'', ''h.in'']\<rparr>,
     \<lparr>languageId = ''csharp'', wasmUri = joinPath extensionUri ''tree-sitter-c_sharp.wasm'',
       suffixes = [''cs'']\<rparr>,
     \<lparr>languageId = ''go'', wasmUri = joinPath extensionUri ''tree-sitter-go.wasm'',
       suffixes = [''go'']\<rparr>,
     \<lparr>languageId = ''java'', wasmUri = joinPath extensionUri ''tree-sitter-java.wasm'',
       suffixes = [''java'']\<rparr>,
     \<lparr>languageId = ''php'', wasmUri = joinPath extensionUri ''tree-sitter-php.wasm'',
       suffixes = [''php'', ''php4'', ''php5'', ''phtml'', ''ctp'']\<rparr>,
     \<lparr>languageId = ''python'', wasmUri = joinPath extensionUri ''tree-sitter-python.wasm'',
       suffixes = [''py'', ''rpy'', ''pyw'', ''cpy'', ''gyp'', ''gypi'', ''pyi'', ''ipy'']\<rparr>,
     \<lparr>languageId = ''rust'', wasmUri = joinPath extensionUri ''tree-sitter-rust.wasm'',
       suffixes = [''rs'']\<rparr>,
     \<lparr>languageId = ''typescript'', wasmUri = joinPath extensionUri ''tree-sitter-typescript.wasm'',
       suffixes = [''ts'', ''tsx'']\<rparr>]"

text \<open>The constructor; its argument is \<^verbatim>\<open>context.extensionUri\<close>.\<close>

definition new_SupportedLanguages :: "uri \<Rightarrow> SupportedLanguages" where
  "new_SupportedLanguages extensionUri =
    \<lparr>all_languages = language_table extensionUri, filteredAll = None, fired = 0\<rparr>"

text \<open>\<^verbatim>\<open>_reset\<close>: drop the cache and fire the change event.\<close>

definition reset :: "SupportedLanguages \<Rightarrow> SupportedLanguages" where
  "reset s = s\<lparr>filteredAll := None, fired := Suc (fired s)\<rparr>"

text \<open>
  The two subscriptions of the constructor: every change of the extensions resets, a
  change of the configuration resets when it affects \<^verbatim>\<open>anycode.language\<close>.
\<close>

definition onDidChangeExtensions :: "SupportedLanguages \<Rightarrow> SupportedLanguages" where
  "onDidChangeExtensions s = reset s"

definition onDidChangeConfiguration :: "bool \<Rightarrow> SupportedLanguages \<Rightarrow> SupportedLanguages" where
  "onDidChangeConfiguration affectsAnycodeLanguage s =
    (if affectsAnycodeLanguage then reset s else s)"

definition wellKnownIgnored :: "vscode_env \<Rightarrow> string set" where
  "wellKnownIgnored env =
    (if ''vscode.typescript-language-features'' \<in> extensions env then {''typescript''} else {})
    \<union> (if ''ms-python.python'' \<in> extensions env then {''python''} else {})"

definition enabled_key :: "string \<Rightarrow> string" where
  "enabled_key lid = ''language.'' @ lid @ ''.enabled''"

text \<open>The callback given to \<^verbatim>\<open>this._all.filter\<close>.\<close>

definition keep_language :: "vscode_env \<Rightarrow> LanguageInfo \<Rightarrow> bool" where
  "keep_language env item =
    (if languageId item \<in> wellKnownIgnored env then False
     else if falsy (config_get (anycode_config env) (enabled_key (languageId item))) then False
     else True)"

text \<open>
  \<^verbatim>\<open>getSupportedLanguages\<close> returns the list and the object's new state. An empty
  array is truthy in JavaScript, so a cached empty list is a cache hit as well.
\<close>

definition getSupportedLanguages ::
  "vscode_env \<Rightarrow> SupportedLanguages \<Rightarrow> LanguageInfo list \<times> SupportedLanguages" where
  "getSupportedLanguages env s =
    (case filteredAll s of
       None \<Rightarrow>
         (let filtered = filter (keep_language env) (all_languages s)
          in (filtered, s\<lparr>filteredAll := Some filtered\<rparr>))
     | Some cached \<Rightarrow> (cached, s))"

definition getSupportedLanguagesAsSelector ::
  "vscode_env \<Rightarrow> SupportedLanguages \<Rightarrow> string list \<times> SupportedLanguages" where
  "getSupportedLanguagesAsSelector env s =
    (case getSupportedLanguages env s of (langs, s') \<Rightarrow> (map languageId langs, s'))"

text \<open>
  The states the object can be in: built by the constructor, then any sequence of
  reads (each in the environment of its moment) and resets.
\<close>

inductive reachable :: "uri \<Rightarrow> SupportedLanguages \<Rightarrow> bool" for extensionUri :: uri where
  reach_new: "reachable extensionUri (new_SupportedLanguages extensionUri)"
| reach_get: "reachable extensionUri s \<Longrightarrow>
    reachable extensionUri (snd (getSupportedLanguages env s))"
| reach_reset: "reachable extensionUri s \<Longrightarrow> reachable extensionUri (reset s)"

text \<open>
  The registry together with the editor it lives in. The editor's state changes only
  through its events: a change of the installed extensions fires
  \<^verbatim>\<open>extensions.onDidChange\<close>; a change of the settings fires
  \<^verbatim>\<open>onDidChangeConfiguration\<close>, whose \<^verbatim>\<open>affectsConfiguration\<close> answers
  true for \<^verbatim>\<open>anycode.language\<close> whenever a setting below it has changed (it may
  answer true for other changes of the section as well).
\<close>

inductive tracked :: "uri \<Rightarrow> vscode_env \<Rightarrow> SupportedLanguages \<Rightarrow> bool"
  for extensionUri :: uri where
  track_new: "tracked extensionUri env (new_SupportedLanguages extensionUri)"
| track_get: "tracked extensionUri env s \<Longrightarrow>
    tracked extensionUri env (snd (getSupportedLanguages env s))"
| track_extensions: "tracked extensionUri env s \<Longrightarrow>
    tracked extensionUri (env\<lparr>extensions := installed\<rparr>) (onDidChangeExtensions s)"
| track_configuration: "tracked extensionUri env s \<Longrightarrow>
    affects \<or> (\<forall>lid. cfg (enabled_key lid) = anycode_config env (enabled_key lid)) \<Longrightarrow>
    tracked extensionUri (env\<lparr>anycode_config := cfg\<rparr>) (onDidChangeConfiguration affects s)"

text \<open>
  The condition of the specification for a language to be listed: the flag is set to
  \<^verbatim>\<open>true\<close> or is absent from the settings, and no shadowing extension is
  installed.
\<close>

definition shadowed :: "vscode_env \<Rightarrow> string \<Rightarrow> bool" where
  "shadowed env lid =
    (lid = ''typescript'' \<and> ''vscode.typescript-language-features'' \<in> extensions env
     \<or> lid = ''python'' \<and> ''ms-python.python'' \<in> extensions env)"

definition spec_enabled :: "vscode_env \<Rightarrow> string \<Rightarrow> bool" where
  "spec_enabled env lid =
    ((anycode_config env (enabled_key lid) = Some (JBool True)
      \<or> anycode_config env (enabled_key lid) = None)
     \<and> \<not> shadowed env lid)"

definition bare_env :: vscode_env where
  "bare_env = \<lparr>extensions = {}, anycode_config = Map.empty\<rparr>"

definition typical_env :: vscode_env where
  "typical_env =
    \<lparr>extensions = {''vscode.typescript-language-features''},
     anycode_config =
       [enabled_key ''c'' \<mapsto> JBool True, enabled_key ''python'' \<mapsto> JBool True,
        enabled_key ''typescript'' \<mapsto> JBool True, enabled_key ''go'' \<mapsto> JBool False,
        enabled_key ''cpp'' \<mapsto> JBool False, enabled_key ''csharp'' \<mapsto> JBool False,
        enabled_key ''java'' \<mapsto> JBool False, enabled_key ''php'' \<mapsto> JBool False,
        enabled_key ''rust'' \<mapsto> JBool False]\<rparr>"

definition root_uri :: uri where
  "root_uri = \<lparr>scheme = ''file'', authority = [], path = ''/ext''\<rparr>"

section \<open>client.ts: values of the host\<close>

text \<open>A thrown value, or the reason a promise is rejected with.\<close>

datatype error = Error string

type_synonym byte = "8 word"

text \<open>
  What the code writes to the console. The two template strings are kept by their
  parts: \<^verbatim>\<open>USING n of m files for pattern\<close> and
  \<^verbatim>\<open>IGNORING "uri" because it is too large (n bytes)\<close>.
\<close>

datatype console =
    Log string
  | Info_using nat nat string
  | Warn_error error
  | Warn_too_large uri nat

section \<open>client.ts: the file/read handler\<close>

text \<open>
  The editor functions the handler calls, each with the ways it can end. \<open>uri_parse\<close>
  is \<^verbatim>\<open>vscode.Uri.parse\<close>, which throws on a string it cannot accept (a scheme
  with illegal characters, a path that contradicts the authority); \<open>openTextDocument\<close>
  gives the text of the document (\<^verbatim>\<open>doc.getText()\<close>) or rejects; \<open>textEncode\<close> is
  \<^verbatim>\<open>new TextEncoder().encode\<close>; \<open>isWritableFileSystem\<close> answers \<open>None\<close> for
  \<^verbatim>\<open>undefined\<close>; \<open>stat\<close> gives the \<^verbatim>\<open>size\<close> of the file or rejects.
\<close>

record file_host =
  uri_parse :: "string \<Rightarrow> error + uri"
  openTextDocument :: "uri \<Rightarrow> error + string"
  textEncode :: "string \<Rightarrow> byte list"
  isWritableFileSystem :: "string \<Rightarrow> bool option"
  stat :: "uri \<Rightarrow> error + nat"
  readFile :: "uri \<Rightarrow> error + byte list"

text \<open>
  The handler returns what the server receives (\<open>Inl\<close>: the request fails with that
  error) and what was written to the console.
\<close>

definition file_read :: "file_host \<Rightarrow> string \<Rightarrow> (error + byte list) \<times> console list" where
  "file_read h raw =
    (case uri_parse h raw of
       Inl err \<Rightarrow> (Inl err, [])
     | Inr u \<Rightarrow>
         if scheme u = ''vscode-notebook-cell'' then
           (case openTextDocument h u of
              Inr text \<Rightarrow> (Inr (textEncode h text), [])
            | Inl err \<Rightarrow> (Inr [], [Warn_error err]))
         else if isWritableFileSystem h (scheme u) = None then (Inr [], [])
         else
           (case stat h u of
              Inl err \<Rightarrow> (Inr [], [Warn_error err])
            | Inr sz \<Rightarrow>
                if sz > 1024 ^ 2 then (Inr [], [Warn_too_large u sz])
                else
                  (case readFile h u of
                     Inl err \<Rightarrow> (Inr [], [Warn_error err])
                   | Inr data \<Rightarrow> (Inr data, []))))"

section \<open>client.ts: the initial indexing request\<close>

text \<open>
  The API a remote-repositories extension exports (\<open>loadWorkspaceContents\<close> may be
  missing), and an installed extension, whose \<^verbatim>\<open>activate()\<close> resolves to its
  API or rejects.
\<close>

record RemoteHubApi =
  loadWorkspaceContents :: "(uri \<Rightarrow> error + bool) option"

record extension =
  activate :: "error + RemoteHubApi option"

text \<open>
  The workspace as \<^verbatim>\<open>_startServer\<close> and its helpers see it. \<open>workspaceFolders\<close>
  holds the folders' URIs; \<open>symbolIndexSize\<close> is the configured value, if any (an
  integer, as the setting is declared);
  \<open>search_exclude\<close> and \<open>files_exclude\<close> are the keys of the two exclude settings;
  \<open>findFiles\<close> takes the include and the exclude pattern; \<open>queue_init\<close> is the
  server's answer to the \<^verbatim>\<open>queue/init\<close> request; \<open>onReady\<close> is how
  \<^verbatim>\<open>client.onReady()\<close> ends.
\<close>

record workspace =
  workspaceFolders :: "uri list option"
  getExtension :: "string \<Rightarrow> extension option"
  symbolIndexSize :: "int option"
  search_exclude :: "string list option"
  files_exclude :: "string list option"
  findFiles :: "string \<Rightarrow> string \<Rightarrow> error + uri list"
  uri_toString :: "uri \<Rightarrow> string"
  uri_fsPath :: "uri \<Rightarrow> string"
  queue_init :: "string list \<Rightarrow> error + unit"
  extensionUri :: uri
  importScripts :: bool
  onReady :: "error + unit"

text \<open>\<^verbatim>\<open>xs.slice(0, end)\<close> for an integer \<open>end\<close>.\<close>

definition slice0 :: "'a list \<Rightarrow> int \<Rightarrow> 'a list" where
  "slice0 xs end =
    (if end < 0 then take (nat (max (int (length xs) + end) 0)) xs
     else take (nat (min end (int (length xs)))) xs)"

definition MAX_SAFE_INTEGER :: int where
  "MAX_SAFE_INTEGER = 2 ^ 53 - 1"

definition getRemoteHubExtension :: "workspace \<Rightarrow> extension option" where
  "getRemoteHubExtension w =
    (case getExtension w ''ms-vscode.remote-repositories'' of
       Some e \<Rightarrow> Some e
     | None \<Rightarrow>
         (case getExtension w ''GitHub.remoteHub'' of
            Some e \<Rightarrow> Some e
          | None \<Rightarrow> getExtension w ''GitHub.remoteHub-insiders''))"

definition isRemoteHubWorkspace :: "workspace \<Rightarrow> bool" where
  "isRemoteHubWorkspace w =
    (case getRemoteHubExtension w of
       None \<Rightarrow> False
     | Some e \<Rightarrow>
         (case workspaceFolders w of
            None \<Rightarrow> False
          | Some folders \<Rightarrow> list_all (\<lambda>folder. scheme folder = ''vscode-vfs'') folders))"

text \<open>The loop over the remote folders of \<^verbatim>\<open>_canInitWithoutLimits\<close>.\<close>

fun load_folders :: "(uri \<Rightarrow> error + bool) \<Rightarrow> uri list \<Rightarrow> error + bool" where
  "load_folders load [] = Inr True"
| "load_folders load (folder # rest) =
    (case load folder of
       Inl err \<Rightarrow> Inl err
     | Inr ok \<Rightarrow> if \<not> ok then Inr False else load_folders load rest)"

definition canInitWithoutLimits :: "workspace \<Rightarrow> error + bool" where
  "canInitWithoutLimits w =
    (case workspaceFolders w of
       None \<Rightarrow> Inr False
     | Some folders \<Rightarrow>
         (let remoteFolders = filter (\<lambda>folder. scheme folder = ''vscode-vfs'') folders
          in if length remoteFolders = 0 then Inr True
             else
               (case (case getRemoteHubExtension w of
                        None \<Rightarrow> Inr None
                      | Some remoteHub \<Rightarrow> activate remoteHub) of
                  Inl err \<Rightarrow> Inl err
                | Inr remoteHubApi \<Rightarrow>
                    (case (case remoteHubApi of
                             None \<Rightarrow> None
                           | Some api \<Rightarrow> loadWorkspaceContents api) of
                       None \<Rightarrow> Inr False
                     | Some load \<Rightarrow> load_folders load remoteFolders))))"

text \<open>What \<^verbatim>\<open>_startServer\<close> and its initial indexing do to the outside.\<close>

record FeatureConfig =
  workspaceSymbols :: bool
  references :: bool
  definitions :: bool

record InitOptions =
  treeSitterWasmUri :: string
  supportedLanguages :: "(LanguageInfo \<times> FeatureConfig) list"
  databaseName :: string

record LanguageClientOptions =
  outputChannelName :: string
  documentSelector :: "string list"
  fileEvents :: string
  initializationOptions :: InitOptions

record init_telemetry =
  numOfFiles :: nat
  indexSize :: nat
  hasWorkspaceContents :: nat

datatype effect =
    Console console
  | CreateFileSystemWatcher string
  | CreateLanguageClient string string LanguageClientOptions
  | ClientStart
  | FindFiles string string
  | WithProgress string
  | OnRequest string
  | SendRequest string "string list"
  | Telemetry_init init_telemetry
  | ShowStatus "string list" bool

definition configured_size :: "workspace \<Rightarrow> int" where
  "configured_size w = max 0 (case symbolIndexSize w of None \<Rightarrow> 500 | Some n \<Rightarrow> n)"

definition exclude :: "workspace \<Rightarrow> string" where
  "exclude w =
    ''{'' @ js_join '',''
      ((case search_exclude w of None \<Rightarrow> [] | Some ks \<Rightarrow> ks)
       @ (case files_exclude w of None \<Rightarrow> [] | Some ks \<Rightarrow> ks)) @ ''}''"

text \<open>
  The promise \<^verbatim>\<open>init\<close>: the final value of the variable \<^verbatim>\<open>size\<close>, what the
  run did, and whether the promise is fulfilled or rejected. The telemetry's
  \<^verbatim>\<open>duration\<close> is a clock reading and is left out.
\<close>

record init_result =
  final_size :: int
  init_effects :: "effect list"
  init_outcome :: "error + unit"

definition init :: "workspace \<Rightarrow> string \<Rightarrow> string list \<Rightarrow> init_result" where
  "init w langPattern selector =
    (let size0 = configured_size w
     in case findFiles w langPattern (exclude w) of
          Inl err \<Rightarrow> \<lparr>final_size = size0, init_effects = [], init_outcome = Inl err\<rparr>
        | Inr all \<Rightarrow>
            (case (if length all > 50 then
                     (case canInitWithoutLimits w of
                        Inl err \<Rightarrow> Inl err
                      | Inr ok \<Rightarrow> Inr (if ok then (MAX_SAFE_INTEGER, 1) else (size0, 0)))
                   else Inr (size0, 0)) of
               Inl err \<Rightarrow> \<lparr>final_size = size0, init_effects = [], init_outcome = Inl err\<rparr>
             | Inr (size1, hasContents) \<Rightarrow>
                 (let uris = slice0 all size1;
                      request =
                        [Console (Info_using (length uris) (length all) langPattern),
                         SendRequest ''queue/init'' (map (uri_toString w) uris)]
                  in case queue_init w (map (uri_toString w) uris) of
                       Inl err \<Rightarrow>
                         \<lparr>final_size = size1, init_effects = request, init_outcome = Inl err\<rparr>
                     | Inr done \<Rightarrow>
                         \<lparr>final_size = size1,
                          init_effects = request @
                            [Telemetry_init \<lparr>numOfFiles = length all, indexSize = length uris,
                               hasWorkspaceContents = hasContents\<rparr>,
                             ShowStatus selector (hasContents = 0 \<and> isRemoteHubWorkspace w)],
                          init_outcome = Inr ()\<rparr>)))"

text \<open>The payloads of the requests and the telemetry events of a run.\<close>

fun requests :: "effect list \<Rightarrow> string list list" where
  "requests [] = []"
| "requests (SendRequest m payload # es) = payload # requests es"
| "requests (e # es) = requests es"

fun telemetry :: "effect list \<Rightarrow> init_telemetry list" where
  "telemetry [] = []"
| "telemetry (Telemetry_init t # es) = t # telemetry es"
| "telemetry (e # es) = telemetry es"

text \<open>
  The specification's cap: \<open>None\<close> is unbounded. \<open>capped F cap\<close> is the minimum of the
  file count and the cap.
\<close>

definition effective_cap :: "nat \<Rightarrow> int \<Rightarrow> bool \<Rightarrow> int option" where
  "effective_cap F C unlimited =
    (if F \<le> 50 then Some C else if unlimited then None else Some C)"

definition capped :: "nat \<Rightarrow> int option \<Rightarrow> nat" where
  "capped F cap = (case cap of None \<Rightarrow> F | Some C \<Rightarrow> min F (nat C))"

section \<open>client.ts: starting a server\<close>

text \<open>
  Modelled from the spec: \<^verbatim>\<open>getSupportedLanguagesAsSelector\<close> of the
  \<^verbatim>\<open>SupportedLanguages\<close> class that client.ts imports, which is not among the
  sources. The document selector is derived from the enabled languages: their
  identifiers, in order.
\<close>

definition client_selector :: "(LanguageInfo \<times> FeatureConfig) list \<Rightarrow> string list" where
  "client_selector langs = map (\<lambda>(info, config). languageId info) langs"

text \<open>
  What the disposable returned by \<^verbatim>\<open>_startServer\<close> releases, as the array
  \<^verbatim>\<open>disposables\<close> stands when the function returns.
\<close>

datatype resource = Watcher | ClientStarted | DestroyLanguageClient | InitCancel

datatype disposable = Disposable "resource list"

text \<open>
  \<^verbatim>\<open>_startServer\<close>, from the enabled languages (with their feature
  configuration), the string \<^verbatim>\<open>Math.random().toString(32).slice(2)\<close> of this call
  and the workspace state (\<^verbatim>\<open>context.workspaceState\<close>, whose
  \<^verbatim>\<open>update\<close> is visible to the next \<^verbatim>\<open>get\<close>). It returns how the promise
  ends, what it did up to there, and the workspace state. Creating and starting the
  client are taken to succeed; \<^verbatim>\<open>client.onReady()\<close> may reject. The initial
  indexing it kicks off is \<open>init\<close> above; here it appears as the call of
  \<^verbatim>\<open>findFiles\<close>.
\<close>

definition startServer' ::
  "workspace \<Rightarrow> (LanguageInfo \<times> FeatureConfig) list \<Rightarrow> string \<Rightarrow> (string \<rightharpoonup> string)
    \<Rightarrow> (error + disposable) \<times> effect list \<times> (string \<rightharpoonup> string)" where
  "startServer' w langs random workspaceState =
    (let selector = client_selector langs
     in if length selector = 0 then
          (Inr (Disposable []),
           [Console (Log ''[anycode] NO supported languages, no server needed'')],
           workspaceState)
        else
          (let dbName =
                 (case workspaceState ''dbName'' of
                    None \<Rightarrow> ''anycode_'' @ random
                  | Some name \<Rightarrow> name);
               workspaceState' = workspaceState(''dbName'' \<mapsto> dbName);
               findAndSearchSuffixes =
                 map (\<lambda>(info, config). suffixes info)
                   (filter (\<lambda>(info, config).
                      workspaceSymbols config \<or> references config \<or> definitions config) langs);
               langPattern =
                 ''**/*.{'' @ js_join '','' (map (js_join '','') findAndSearchSuffixes) @ ''}'';
               wasm = joinPath (extensionUri w)
                 ''./server/node_modules/web-tree-sitter/tree-sitter.wasm'';
               options =
                 \<lparr>treeSitterWasmUri =
                    (if importScripts w then uri_toString w wasm else uri_fsPath w wasm),
                  supportedLanguages = langs,
                  databaseName = dbName\<rparr>;
               clientOptions =
                 \<lparr>outputChannelName = ''anycode'', documentSelector = selector,
                  fileEvents = langPattern, initializationOptions = options\<rparr>;
               started =
                 [CreateFileSystemWatcher langPattern,
                  CreateLanguageClient ''anycode'' ''anycode'' clientOptions,
                  ClientStart]
           in case onReady w of
                Inl err \<Rightarrow> (Inl err, started, workspaceState')
              | Inr ready \<Rightarrow>
                  (Inr (Disposable [Watcher, ClientStarted, DestroyLanguageClient, InitCancel]),
                   started @
                     [FindFiles langPattern (exclude w), WithProgress ''Building Index...'',
                      OnRequest ''file/read''],
                   workspaceState')))"

text \<open>The database names placed in the initialization options of the clients created.\<close>

fun sent_databaseNames :: "effect list \<Rightarrow> string list" where
  "sent_databaseNames [] = []"
| "sent_databaseNames (CreateLanguageClient i n opts # es) =
    databaseName (initializationOptions opts) # sent_databaseNames es"
| "sent_databaseNames (e # es) = sent_databaseNames es"

text \<open>
  A sequence of server starts on one workspace, each with its own editor state,
  languages and random string: the database names sent, and the final workspace state.
\<close>

fun server_starts ::
  "(workspace \<times> (LanguageInfo \<times> FeatureConfig) list \<times> string) list \<Rightarrow> (string \<rightharpoonup> string)
    \<Rightarrow> string list \<times> (string \<rightharpoonup> string)" where
  "server_starts [] ws = ([], ws)"
| "server_starts ((w, langs, random) # rest) ws =
    (case startServer' w langs random ws of
       (result, effects, ws') \<Rightarrow>
         (case server_starts rest ws' of
            (names, ws'') \<Rightarrow> (sent_databaseNames effects @ names, ws'')))"

section \<open>client.ts: startClient\<close>

text \<open>
  The promises returned by \<^verbatim>\<open>_startServer\<close> are numbered in the order of
  the calls. A promise settles once, at a moment the editor and the server decide:
  fulfilled with a disposable, or rejected.
\<close>

datatype outcome = Fulfilled | Rejected

text \<open>
  What happens to \<^verbatim>\<open>startClient\<close> from outside, one task of the event loop
  each: the registry fires \<^verbatim>\<open>onDidChange\<close>, the extension is deactivated (the
  subscription that calls \<^verbatim>\<open>stopServers\<close>), or one of the promises settles.
\<close>

datatype event = LanguagesChanged | Deactivate | Settled nat outcome

text \<open>
  The history of the servers, kept for the statements below: \<open>Started n hs\<close> is the
  call of \<^verbatim>\<open>_startServer\<close> that returned promise \<open>n\<close>, made after a call of
  \<^verbatim>\<open>stopServers\<close> whose \<^verbatim>\<open>oldHandles\<close> were \<open>hs\<close> (none for the first
  call, which \<^verbatim>\<open>startClient\<close> makes itself); \<open>Disposed h\<close> is the call of
  \<^verbatim>\<open>dispose()\<close> on the value of promise \<open>h\<close>.
\<close>

datatype action = Started nat "nat list" | Disposed nat

text \<open>
  The closure's state: the array \<^verbatim>\<open>serverHandles\<close>, the number of calls of
  \<^verbatim>\<open>_startServer\<close> so far, how the promises have settled, the calls of
  \<^verbatim>\<open>stopServers\<close> suspended at their \<^verbatim>\<open>await\<close> (each with its
  \<^verbatim>\<open>oldHandles\<close>, and whether \<^verbatim>\<open>startServer()\<close> follows, as it does in the
  change handler), and the history of starts and disposals so far, in order.
\<close>

record client_state =
  serverHandles :: "nat list"
  started :: nat
  settlement :: "nat \<rightharpoonup> outcome"
  stopping :: "(nat list \<times> bool) list"
  actions :: "action list"

definition startServer :: "client_state \<Rightarrow> client_state" where
  "startServer c =
    c\<lparr>serverHandles := serverHandles c @ [started c], started := Suc (started c)\<rparr>"

text \<open>\<^verbatim>\<open>stopServers\<close> up to its \<^verbatim>\<open>await\<close>.\<close>

definition stopServers_begin :: "bool \<Rightarrow> client_state \<Rightarrow> client_state" where
  "stopServers_begin restart c =
    c\<lparr>serverHandles := [], stopping := stopping c @ [(serverHandles c, restart)]\<rparr>"

text \<open>
  \<^verbatim>\<open>stopServers\<close> after its \<^verbatim>\<open>await\<close>: the loop over the results disposes
  the value of every fulfilled promise; then the change handler goes on to
  \<^verbatim>\<open>startServer()\<close>. A \<^verbatim>\<open>dispose()\<close> is taken not to throw.
\<close>

definition stopServers_resume :: "nat list \<times> bool \<Rightarrow> client_state \<Rightarrow> client_state" where
  "stopServers_resume k c =
    (let c' = c\<lparr>actions := actions c @
                 map Disposed (filter (\<lambda>h. settlement c h = Some Fulfilled) (fst k))\<rparr>
     in if snd k
        then startServer (c'\<lparr>actions := actions c' @ [Started (started c) (fst k)]\<rparr>)
        else c')"

text \<open>\<^verbatim>\<open>Promise.allSettled(oldHandles)\<close> is resolved when each of them has settled.\<close>

definition allSettled :: "client_state \<Rightarrow> nat list \<times> bool \<Rightarrow> bool" where
  "allSettled c k = list_all (\<lambda>h. settlement c h \<noteq> None) (fst k)"

fun resume_all :: "(nat list \<times> bool) list \<Rightarrow> client_state \<Rightarrow> client_state" where
  "resume_all [] c = c"
| "resume_all (k # ks) c = resume_all ks (stopServers_resume k c)"

text \<open>
  After each task the suspended calls whose promise is resolved go on, in the order
  they were suspended. Going on settles no promise, so which calls are ready is known
  beforehand.
\<close>

definition run_microtasks :: "client_state \<Rightarrow> client_state" where
  "run_microtasks c =
    resume_all (filter (allSettled c) (stopping c))
      (c\<lparr>stopping := filter (\<lambda>k. \<not> allSettled c k) (stopping c)\<rparr>)"

fun handle :: "client_state \<Rightarrow> event \<Rightarrow> client_state" where
  "handle c LanguagesChanged = run_microtasks (stopServers_begin True c)"
| "handle c Deactivate = run_microtasks (stopServers_begin False c)"
| "handle c (Settled h out) =
    (if h < started c \<and> settlement c h = None
     then run_microtasks (c\<lparr>settlement := (settlement c)(h \<mapsto> out)\<rparr>)
     else c)"

text \<open>\<^verbatim>\<open>startClient\<close> itself: an empty array, then \<^verbatim>\<open>startServer()\<close>.\<close>

definition startClient :: client_state where
  "startClient =
    startServer
      \<lparr>serverHandles = [], started = 0, settlement = Map.empty, stopping = [],
       actions = [Started 0 []]\<rparr>"

definition client_after :: "event list \<Rightarrow> client_state" where
  "client_after evs = foldl handle startClient evs"

text \<open>One change notification, followed by further events.\<close>

definition notify_then :: "event list \<Rightarrow> client_state \<Rightarrow> client_state" where
  "notify_then evs c = foldl handle (handle c LanguagesChanged) evs"

fun is_settlement :: "event \<Rightarrow> bool" where
  "is_settlement (Settled h out) = True"
| "is_settlement e = False"

text \<open>
  Rounds of notifications that do not overlap: each round is one notification and
  settlements only, and ends with no call of \<^verbatim>\<open>stopServers\<close> suspended.
\<close>

fun rounds_after :: "event list list \<Rightarrow> client_state \<Rightarrow> client_state" where
  "rounds_after [] c = c"
| "rounds_after (r # rs) c = rounds_after rs (notify_then r c)"

fun separate_rounds :: "event list list \<Rightarrow> client_state \<Rightarrow> bool" where
  "separate_rounds [] c = True"
| "separate_rounds (r # rs) c =
    (list_all is_settlement r \<and> stopping (notify_then r c) = []
     \<and> separate_rounds rs (notify_then r c))"

text \<open>
  Three notions for the proofs: the number of suspended change handlers, a handler
  that captured \<open>hs\<close> in state \<open>c\<close> and is still suspended, and one that has gone on.
\<close>

definition restarts_pending :: "client_state \<Rightarrow> nat" where
  "restarts_pending c = length (filter snd (stopping c))"

definition waiting_for :: "client_state \<Rightarrow> nat list \<Rightarrow> client_state \<Rightarrow> bool" where
  "waiting_for c hs d \<longleftrightarrow>
    stopping d = [(hs, True)] \<and> serverHandles d = [] \<and> actions d = actions c
    \<and> started d = started c \<and> \<not> list_all (\<lambda>h. settlement d h \<noteq> None) hs"

definition restarted_from :: "client_state \<Rightarrow> nat list \<Rightarrow> client_state \<Rightarrow> bool" where
  "restarted_from c hs d \<longleftrightarrow>
    stopping d = [] \<and> serverHandles d = [started c] \<and> started d = Suc (started c)
    \<and> actions d = actions c
        @ map Disposed (filter (\<lambda>h. settlement d h = Some Fulfilled) hs)
        @ [Started (started c) hs]
    \<and> list_all (\<lambda>h. settlement d h \<noteq> None) hs"



text \<open>
  What holds of the history in every state: a start follows the settling of the handles
  its handler captured and the disposal of the fulfilled ones among them; only
  fulfilled handles are disposed; every promise is either current, or captured by a
  suspended call (or one of \<open>ks\<close>, about to go on), or settled and, if fulfilled,
  disposed.
\<close>

definition started_after_await :: "client_state \<Rightarrow> bool" where
  "started_after_await c \<longleftrightarrow>
    (\<forall>pre n hs post. actions c = pre @ Started n hs # post \<longrightarrow>
      (\<forall>h \<in> set hs. settlement c h \<noteq> None
         \<and> (settlement c h = Some Fulfilled \<longrightarrow> Disposed h \<in> set pre)))"

definition disposed_fulfilled :: "client_state \<Rightarrow> bool" where
  "disposed_fulfilled c \<longleftrightarrow>
    (\<forall>h. Disposed h \<in> set (actions c) \<longrightarrow> settlement c h = Some Fulfilled)"

definition accounted :: "(nat list \<times> bool) list \<Rightarrow> client_state \<Rightarrow> bool" where
  "accounted ks c \<longleftrightarrow>
    (\<forall>h < started c.
       h \<in> set (serverHandles c)
       \<or> (\<exists>k \<in> set (stopping c) \<union> set ks. h \<in> set (fst k))
       \<or> (settlement c h \<noteq> None
           \<and> (settlement c h = Some Fulfilled \<longrightarrow> Disposed h \<in> set (actions c))))"

definition captured_by :: "nat \<Rightarrow> nat list \<Rightarrow> client_state \<Rightarrow> bool" where
  "captured_by N hs d \<longleftrightarrow>
    N \<le> started d
    \<and> ((hs, True) \<in> set (stopping d) \<or> (\<exists>n \<ge> N. Started n hs \<in> set (actions d)))"

text \<open>The four together, without \<open>ks\<close>.\<close>

definition history_ok :: "client_state \<Rightarrow> bool" where
  "history_ok c \<longleftrightarrow>
    started_after_await c \<and> disposed_fulfilled c \<and> accounted [] c
    \<and> (\<forall>k \<in> set (stopping c). \<not> allSettled c k)"

section \<open>Sample hosts\<close>

text \<open>
  A small editor to run the handler in: an open notebook cell whose text has 1048577
  characters and one that is not open, a file of 1048577 bytes, a file of three bytes,
  a file that is missing (\<^verbatim>\<open>stat\<close> rejects), a file that cannot be read
  (\<^verbatim>\<open>readFile\<close> rejects), a scheme no file system is registered for, and one
  string that is not the encoding of a URI (its scheme has a space in it).
\<close>

definition notebook_uri :: uri where
  "notebook_uri = \<lparr>scheme = ''vscode-notebook-cell'', authority = [], path = ''/nb.ipynb''\<rparr>"

definition big_uri :: uri where
  "big_uri = \<lparr>scheme = ''file'', authority = [], path = ''/big.bin''\<rparr>"

definition small_uri :: uri where
  "small_uri = \<lparr>scheme = ''file'', authority = [], path = ''/a.c''\<rparr>"

definition closed_cell_uri :: uri where
  "closed_cell_uri =
    \<lparr>scheme = ''vscode-notebook-cell'', authority = [], path = ''/closed.ipynb''\<rparr>"

definition missing_uri :: uri where
  "missing_uri = \<lparr>scheme = ''file'', authority = [], path = ''/missing.c''\<rparr>"

definition locked_uri :: uri where
  "locked_uri = \<lparr>scheme = ''file'', authority = [], path = ''/locked.c''\<rparr>"

definition ftp_uri :: uri where
  "ftp_uri = \<lparr>scheme = ''ftp'', authority = ''host'', path = ''/x.c''\<rparr>"

definition sample_file_host :: file_host where
  "sample_file_host =
    \<lparr>uri_parse = (\<lambda>raw.
         if raw = ''a b:c'' then Inl (Error ''[UriError]: Scheme contains illegal characters.'')
         else if raw = ''vscode-notebook-cell:/nb.ipynb'' then Inr notebook_uri
         else if raw = ''file:///big.bin'' then Inr big_uri
         else if raw = ''file:///a.c'' then Inr small_uri
         else if raw = ''vscode-notebook-cell:/closed.ipynb'' then Inr closed_cell_uri
         else if raw = ''file:///missing.c'' then Inr missing_uri
         else if raw = ''file:///locked.c'' then Inr locked_uri
         else if raw = ''ftp://host/x.c'' then Inr ftp_uri
         else Inr \<lparr>scheme = ''file'', authority = [], path = raw\<rparr>),
     openTextDocument = (\<lambda>u.
         if u = notebook_uri then Inr (replicate 1048577 (CHR ''a''))
         else Inl (Error ''cannot open'')),
     textEncode = map (\<lambda>c. word_of_nat (of_char c)),
     isWritableFileSystem = (\<lambda>s. if s = ''file'' then Some True else None),
     stat = (\<lambda>u.
         if u = small_uri then Inr 3
         else if u = locked_uri then Inr 10
         else if u = missing_uri then Inl (Error ''ENOENT'')
         else Inr 1048577),
     readFile = (\<lambda>u.
         if u = locked_uri then Inl (Error ''EACCES'') else Inr [0x61, 0x2E, 0x63])\<rparr>"

definition vfs_folder :: uri where
  "vfs_folder = \<lparr>scheme = ''vscode-vfs'', authority = ''github'', path = ''/owner/repo''\<rparr>"

definition sample_files :: "uri list" where
  "sample_files = small_uri # big_uri # replicate 98 small_uri"

definition local_workspace :: workspace where
  "local_workspace =
    \<lparr>workspaceFolders = None,
     getExtension = (\<lambda>id. None),
     symbolIndexSize = Some 2,
     search_exclude = None,
     files_exclude = None,
     findFiles = (\<lambda>include excl. Inr sample_files),
     uri_toString = (\<lambda>u. scheme u @ ''://'' @ authority u @ path u),
     uri_fsPath = path,
     queue_init = (\<lambda>payload. Inr ()),
     extensionUri = root_uri,
     importScripts = False,
     onReady = Inr ()\<rparr>"

definition failing_remote_workspace :: workspace where
  "failing_remote_workspace =
    local_workspace
      \<lparr>workspaceFolders := Some [vfs_folder],
       getExtension := (\<lambda>id.
         if id = ''ms-vscode.remote-repositories'' then
           Some \<lparr>activate = Inr (Some
             \<lparr>loadWorkspaceContents = Some (\<lambda>u. Inl (Error ''network error''))\<rparr>)\<rparr>
         else None)\<rparr>"

definition failing_activation_workspace :: workspace where
  "failing_activation_workspace =
    local_workspace
      \<lparr>workspaceFolders := Some [vfs_folder],
       getExtension := (\<lambda>id.
         if id = ''GitHub.remoteHub'' then Some \<lparr>activate = Inl (Error ''activation failed'')\<rparr>
         else None)\<rparr>"

definition c_language :: "LanguageInfo \<times> FeatureConfig" where
  "c_language =
    (\<lparr>languageId = ''c'', wasmUri = joinPath root_uri ''tree-sitter-c.wasm'',
      suffixes = [''c'', ''i'']\<rparr>,
     \<lparr>workspaceSymbols = True, references = False, definitions = True\<rparr>)"


section \<open>Properties of supportedLanguages.ts\<close>

lemma wellKnownIgnored_shadowed: "lid \<in> wellKnownIgnored env \<longleftrightarrow> shadowed env lid"
  by (auto simp: wellKnownIgnored_def shadowed_def)

lemma reachable_table: "reachable x s \<Longrightarrow> all_languages s = language_table x"
  by (induction rule: reachable.induct)
     (auto simp: new_SupportedLanguages_def getSupportedLanguages_def reset_def Let_def
           split: option.splits)

lemma reachable_cache_subseq:
  "reachable x s \<Longrightarrow> filteredAll s = Some cached \<Longrightarrow> subseq cached (language_table x)"
proof (induction arbitrary: cached rule: reachable.induct)
  case reach_new
  then show ?case by (simp add: new_SupportedLanguages_def)
next
  case (reach_get s env)
  show ?case
  proof (cases "filteredAll s")
    case None
    with reach_get.prems reach_get.hyps show ?thesis
      by (auto simp: getSupportedLanguages_def Let_def reachable_table)
  next
    case (Some old)
    with reach_get.prems reach_get.IH show ?thesis
      by (simp add: getSupportedLanguages_def)
  qed
next
  case (reach_reset s)
  then show ?case by (simp add: reset_def)
qed

lemma get_subseq:
  "reachable x s \<Longrightarrow> subseq (fst (getSupportedLanguages env s)) (language_table x)"
  by (cases "filteredAll s")
     (auto simp: getSupportedLanguages_def Let_def reachable_table
           dest: reachable_cache_subseq)

lemma get_cached:
  "getSupportedLanguages env' (snd (getSupportedLanguages env s)) =
    (fst (getSupportedLanguages env s), snd (getSupportedLanguages env s))"
  by (cases "filteredAll s") (auto simp: getSupportedLanguages_def Let_def)

lemma table_ids:
  "map languageId (language_table x) =
    [''c'', ''cpp'', ''csharp'', ''go'', ''java'', ''php'', ''python'', ''rust'', ''typescript'']"
  by (simp add: language_table_def)

text \<open>
  C10. In every state the object can reach, \<^verbatim>\<open>getSupportedLanguages\<close> returns a
  subsequence of the static table, so the identifiers are a subsequence of c, cpp, csharp,
  go, java, php, python, rust, typescript in that order; a second call with no reset in
  between returns the same list and leaves the state as it is, whatever the extensions
  and the configuration have become; and \<^verbatim>\<open>getSupportedLanguagesAsSelector\<close>
  returns the identifiers of that list in the same order.
\<close>

theorem getSupportedLanguages_subseq_cached:
  assumes "reachable x s"
  shows "subseq (fst (getSupportedLanguages env s)) (language_table x)
    \<and> subseq (map languageId (fst (getSupportedLanguages env s)))
        [''c'', ''cpp'', ''csharp'', ''go'', ''java'', ''php'', ''python'', ''rust'',
         ''typescript'']
    \<and> getSupportedLanguages env' (snd (getSupportedLanguages env s)) =
        (fst (getSupportedLanguages env s), snd (getSupportedLanguages env s))
    \<and> fst (getSupportedLanguagesAsSelector env s) =
        map languageId (fst (getSupportedLanguages env s))
    \<and> fst (getSupportedLanguagesAsSelector env' (snd (getSupportedLanguages env s))) =
        map languageId (fst (getSupportedLanguages env s))"
proof -
  have sub: "subseq (fst (getSupportedLanguages env s)) (language_table x)"
    using assms by (rule get_subseq)
  have "subseq (map languageId (fst (getSupportedLanguages env s)))
      (map languageId (language_table x))"
    using sub by (rule subseq_map)
  then have ids: "subseq (map languageId (fst (getSupportedLanguages env s)))
      [''c'', ''cpp'', ''csharp'', ''go'', ''java'', ''php'', ''python'', ''rust'',
       ''typescript'']"
    by (simp only: table_ids)
  have sel: "fst (getSupportedLanguagesAsSelector e t) =
      map languageId (fst (getSupportedLanguages e t))" for e t
    by (simp add: getSupportedLanguagesAsSelector_def split: prod.splits)
  show ?thesis
    using sub ids by (simp add: get_cached sel)
qed

lemma typical_result:
  "map languageId (fst (getSupportedLanguages typical_env (new_SupportedLanguages root_uri)))
    = [''c'', ''python'']"
  by (simp add: getSupportedLanguages_def Let_def new_SupportedLanguages_def
      language_table_def keep_language_def wellKnownIgnored_def typical_env_def
      config_get_def enabled_key_def)

theorem getSupportedLanguages_subseq_cached_witness:
  "map languageId (fst (getSupportedLanguages typical_env (new_SupportedLanguages root_uri)))
     = [''c'', ''python'']
   \<and> subseq [''c'', ''python'']
        [''c'', ''cpp'', ''csharp'', ''go'', ''java'', ''php'', ''python'', ''rust'',
         ''typescript'']
   \<and> fst (getSupportedLanguagesAsSelector bare_env
          (snd (getSupportedLanguages typical_env (new_SupportedLanguages root_uri))))
     = [''c'', ''python'']"
  using getSupportedLanguages_subseq_cached [OF reach_new, of typical_env root_uri bare_env]
  by (simp add: typical_result)

lemma joinPath_wasm:
  "joinPath root_uri ''./server/node_modules/web-tree-sitter/tree-sitter.wasm'' =
    \<lparr>scheme = ''file'', authority = [],
     path = ''/ext/server/node_modules/web-tree-sitter/tree-sitter.wasm''\<rparr>"
  "joinPath root_uri ''tree-sitter-c.wasm'' =
    \<lparr>scheme = ''file'', authority = [], path = ''/ext/tree-sitter-c.wasm''\<rparr>"
  by (simp_all add: joinPath_def posix_join_def posix_normalize_def root_uri_def Let_def)

lemma declared_default_enabled: "declared_default (enabled_key lid) = JBool True"
  by (simp add: declared_default_def enabled_key_def suffix_def)

lemma keep_language_iff:
  assumes "\<forall>v. anycode_config env (enabled_key (languageId item)) = Some v \<longrightarrow> (\<exists>b. v = JBool b)"
  shows "keep_language env item \<longleftrightarrow> spec_enabled env (languageId item)"
proof (cases "anycode_config env (enabled_key (languageId item))")
  case None
  then show ?thesis
    by (simp add: keep_language_def spec_enabled_def wellKnownIgnored_shadowed config_get_def
        declared_default_enabled)
next
  case (Some v)
  with assms obtain b where "v = JBool b" by blast
  with Some show ?thesis
    by (simp add: keep_language_def spec_enabled_def wellKnownIgnored_shadowed config_get_def)
qed

lemma keep_language_cong:
  assumes "extensions env' = extensions env"
    and "\<forall>lid. anycode_config env' (enabled_key lid) = anycode_config env (enabled_key lid)"
  shows "keep_language env' = keep_language env"
proof
  fix item :: LanguageInfo
  from assms(2) have "config_get (anycode_config env') (enabled_key (languageId item)) =
      config_get (anycode_config env) (enabled_key (languageId item))"
    by (simp add: config_get_def)
  with assms(1) show "keep_language env' item = keep_language env item"
    by (simp add: keep_language_def wellKnownIgnored_def)
qed

lemma tracked_cache:
  "tracked x env s \<Longrightarrow>
    all_languages s = language_table x
    \<and> (\<forall>cached. filteredAll s = Some cached \<longrightarrow>
          cached = filter (keep_language env) (language_table x))"
proof (induction rule: tracked.induct)
  case (track_new env)
  show ?case by (simp add: new_SupportedLanguages_def)
next
  case (track_get env s)
  then show ?case
    by (cases "filteredAll s") (simp_all add: getSupportedLanguages_def Let_def)
next
  case (track_extensions env s installed)
  then show ?case by (simp add: onDidChangeExtensions_def reset_def)
next
  case (track_configuration env s affects cfg)
  show ?case
  proof (cases affects)
    case True
    with track_configuration.IH show ?thesis
      by (simp add: onDidChangeConfiguration_def reset_def)
  next
    case False
    with track_configuration.hyps(2)
    have "keep_language (env\<lparr>anycode_config := cfg\<rparr>) = keep_language env"
      by (intro keep_language_cong) simp_all
    with False track_configuration.IH show ?thesis
      by (simp add: onDidChangeConfiguration_def)
  qed
qed

lemma tracked_result:
  assumes "tracked x env s"
  shows "fst (getSupportedLanguages env s) = filter (keep_language env) (language_table x)"
  using tracked_cache [OF assms]
  by (cases "filteredAll s") (simp_all add: getSupportedLanguages_def Let_def)

text \<open>
  C2. In every state the registry and its editor can reach (the constructor, reads,
  changes of the installed extensions and of the settings, each announced by its
  event), a language of the static table is returned by
  \<^verbatim>\<open>getSupportedLanguages\<close> exactly when its flag is set to \<^verbatim>\<open>true\<close> or
  is absent from the settings, and no shadowing extension is installed. The flag is a
  boolean setting: when set, its value is a boolean.
\<close>

theorem getSupportedLanguages_iff_enabled:
  assumes "tracked x env s"
    and "\<forall>v. anycode_config env (enabled_key (languageId item)) = Some v \<longrightarrow> (\<exists>b. v = JBool b)"
  shows "item \<in> set (fst (getSupportedLanguages env s)) \<longleftrightarrow>
    item \<in> set (language_table x) \<and> spec_enabled env (languageId item)"
  unfolding tracked_result [OF assms(1)] using keep_language_iff [OF assms(2)] by auto

theorem getSupportedLanguages_iff_enabled_witness:
  "hd (language_table root_uri) \<in> set (fst (getSupportedLanguages
      (bare_env\<lparr>extensions := {''vscode.typescript-language-features''}\<rparr>)
      (onDidChangeExtensions
        (snd (getSupportedLanguages bare_env (new_SupportedLanguages root_uri))))))
   \<and> last (language_table root_uri) \<notin> set (fst (getSupportedLanguages
      (bare_env\<lparr>extensions := {''vscode.typescript-language-features''}\<rparr>)
      (onDidChangeExtensions
        (snd (getSupportedLanguages bare_env (new_SupportedLanguages root_uri))))))
   \<and> languageId (hd (language_table root_uri)) = ''c''
   \<and> languageId (last (language_table root_uri)) = ''typescript''"
proof -
  let ?env = "bare_env\<lparr>extensions := {''vscode.typescript-language-features''}\<rparr>"
  let ?s = "onDidChangeExtensions
    (snd (getSupportedLanguages bare_env (new_SupportedLanguages root_uri)))"
  let ?c = "hd (language_table root_uri)"
  let ?ts = "last (language_table root_uri)"
  have t: "tracked root_uri ?env ?s"
    by (intro track_extensions track_get track_new)
  have unset: "\<forall>v. anycode_config ?env key = Some v \<longrightarrow> (\<exists>b. v = JBool b)" for key
    by (simp add: bare_env_def)
  have ids: "languageId ?c = ''c''" "languageId ?ts = ''typescript''"
    by (simp_all add: language_table_def)
  have table: "?c \<in> set (language_table root_uri)" "?ts \<in> set (language_table root_uri)"
    by (simp_all add: language_table_def)
  have spec: "spec_enabled ?env ''c''" "\<not> spec_enabled ?env ''typescript''"
    by (simp_all add: spec_enabled_def shadowed_def bare_env_def)
  from getSupportedLanguages_iff_enabled [OF t unset, of ?c]
    getSupportedLanguages_iff_enabled [OF t unset, of ?ts] table spec ids
  show ?thesis
    by simp
qed

section \<open>Properties of the file/read handler\<close>

lemma file_read_parsed:
  "uri_parse h raw = Inr u \<Longrightarrow>
    file_read h raw =
      (if scheme u = ''vscode-notebook-cell'' then
         (case openTextDocument h u of
            Inr text \<Rightarrow> (Inr (textEncode h text), [])
          | Inl err \<Rightarrow> (Inr [], [Warn_error err]))
       else if isWritableFileSystem h (scheme u) = None then (Inr [], [])
       else
         (case stat h u of
            Inl err \<Rightarrow> (Inr [], [Warn_error err])
          | Inr sz \<Rightarrow>
              if sz > 1048576 then (Inr [], [Warn_too_large u sz])
              else
                (case readFile h u of
                   Inl err \<Rightarrow> (Inr [], [Warn_error err])
                 | Inr data \<Rightarrow> (Inr data, []))))"
proof -
  have mib: "(1024::nat) ^ 2 = 1048576"
    by simp
  assume "uri_parse h raw = Inr u"
  then show ?thesis
    unfolding file_read_def mib by simp
qed

lemma sample_parse:
  "uri_parse sample_file_host ''file:///a.c'' = Inr small_uri"
  "uri_parse sample_file_host ''file:///big.bin'' = Inr big_uri"
  "uri_parse sample_file_host ''vscode-notebook-cell:/nb.ipynb'' = Inr notebook_uri"
  by (simp_all add: sample_file_host_def)

lemma sample_parse_failing:
  "uri_parse sample_file_host ''vscode-notebook-cell:/closed.ipynb'' = Inr closed_cell_uri"
  "uri_parse sample_file_host ''ftp://host/x.c'' = Inr ftp_uri"
  "uri_parse sample_file_host ''file:///missing.c'' = Inr missing_uri"
  "uri_parse sample_file_host ''file:///locked.c'' = Inr locked_uri"
  by (simp_all add: sample_file_host_def)

text \<open>
  C4. A location is the string encoding of a URI (those of \<^verbatim>\<open>queue/init\<close> are
  \<^verbatim>\<open>String(uri)\<close>), which \<^verbatim>\<open>Uri.parse\<close> reads back. For every location
  string the handler answers with a byte sequence and no error reaches the server: a
  notebook cell that cannot be opened, a scheme the file system knows nothing about, a
  failing \<^verbatim>\<open>stat\<close> and a failing \<^verbatim>\<open>readFile\<close> each give the empty
  sequence, with the error logged as a warning where there is one.
\<close>

theorem file_read_graceful:
  assumes "uri_parse h raw = Inr u"
  shows "(\<exists>data. fst (file_read h raw) = Inr data)
    \<and> (scheme u = ''vscode-notebook-cell'' \<longrightarrow>
        (\<forall>err. openTextDocument h u = Inl err \<longrightarrow>
          file_read h raw = (Inr [], [Warn_error err])))
    \<and> (scheme u \<noteq> ''vscode-notebook-cell'' \<and> isWritableFileSystem h (scheme u) = None \<longrightarrow>
        file_read h raw = (Inr [], []))
    \<and> (scheme u \<noteq> ''vscode-notebook-cell'' \<and> isWritableFileSystem h (scheme u) \<noteq> None \<longrightarrow>
        (\<forall>err. stat h u = Inl err \<longrightarrow> file_read h raw = (Inr [], [Warn_error err])))
    \<and> (scheme u \<noteq> ''vscode-notebook-cell'' \<and> isWritableFileSystem h (scheme u) \<noteq> None \<longrightarrow>
        (\<forall>sz err. stat h u = Inr sz \<and> sz \<le> 1048576 \<and> readFile h u = Inl err \<longrightarrow>
          file_read h raw = (Inr [], [Warn_error err])))"
  by (auto simp: file_read_parsed [OF assms] split: sum.splits)

theorem file_read_graceful_witness:
  "file_read sample_file_host ''vscode-notebook-cell:/closed.ipynb'' =
     (Inr [], [Warn_error (Error ''cannot open'')])
   \<and> file_read sample_file_host ''ftp://host/x.c'' = (Inr [], [])
   \<and> file_read sample_file_host ''file:///missing.c'' = (Inr [], [Warn_error (Error ''ENOENT'')])
   \<and> file_read sample_file_host ''file:///locked.c'' = (Inr [], [Warn_error (Error ''EACCES'')])
   \<and> (\<exists>data. fst (file_read sample_file_host ''file:///a.c'') = Inr data)"
proof -
  note uris = closed_cell_uri_def ftp_uri_def missing_uri_def locked_uri_def small_uri_def
    notebook_uri_def
  have cell: "scheme closed_cell_uri = ''vscode-notebook-cell''"
      "openTextDocument sample_file_host closed_cell_uri = Inl (Error ''cannot open'')"
    by (simp_all add: sample_file_host_def uris)
  have ftp: "scheme ftp_uri \<noteq> ''vscode-notebook-cell''"
      "isWritableFileSystem sample_file_host (scheme ftp_uri) = None"
    by (simp_all add: sample_file_host_def uris)
  have missing: "scheme missing_uri \<noteq> ''vscode-notebook-cell''"
      "isWritableFileSystem sample_file_host (scheme missing_uri) \<noteq> None"
      "stat sample_file_host missing_uri = Inl (Error ''ENOENT'')"
    by (simp_all add: sample_file_host_def uris)
  have locked: "scheme locked_uri \<noteq> ''vscode-notebook-cell''"
      "isWritableFileSystem sample_file_host (scheme locked_uri) \<noteq> None"
      "stat sample_file_host locked_uri = Inr 10"
      "readFile sample_file_host locked_uri = Inl (Error ''EACCES'')"
    by (simp_all add: sample_file_host_def uris)
  from file_read_graceful [OF sample_parse_failing(1)] cell
  have 1: "file_read sample_file_host ''vscode-notebook-cell:/closed.ipynb'' =
      (Inr [], [Warn_error (Error ''cannot open'')])"
    by blast
  from file_read_graceful [OF sample_parse_failing(2)] ftp
  have 2: "file_read sample_file_host ''ftp://host/x.c'' = (Inr [], [])"
    by blast
  from file_read_graceful [OF sample_parse_failing(3)] missing
  have 3: "file_read sample_file_host ''file:///missing.c'' =
      (Inr [], [Warn_error (Error ''ENOENT'')])"
    by blast
  have "(10::nat) \<le> 1048576" by simp
  with file_read_graceful [OF sample_parse_failing(4)] locked
  have 4: "file_read sample_file_host ''file:///locked.c'' =
      (Inr [], [Warn_error (Error ''EACCES'')])"
    by blast
  from file_read_graceful [OF sample_parse(1)]
  have 5: "\<exists>data. fst (file_read sample_file_host ''file:///a.c'') = Inr data"
    by blast
  from 1 2 3 4 5 show ?thesis by blast
qed

text \<open>
  A string that is not the encoding of a URI reaches none of these branches:
  \<^verbatim>\<open>Uri.parse\<close> throws before the first \<^verbatim>\<open>try\<close>, and the request ends
  with the parser's error.
\<close>

lemma file_read_not_a_uri:
  "file_read sample_file_host ''a b:c'' =
    (Inl (Error ''[UriError]: Scheme contains illegal characters.''), [])"
  by (simp add: file_read_def sample_file_host_def)

text \<open>
  C5. For a location on a file system the editor knows, whose \<^verbatim>\<open>stat\<close> succeeds:
  a size above 1048576 bytes gives the empty sequence and one warning, and
  \<^verbatim>\<open>readFile\<close> is not consulted; a size of at most 1048576 bytes gives exactly the
  bytes \<^verbatim>\<open>readFile\<close> returns.
\<close>

theorem file_read_size_limit:
  assumes "uri_parse h raw = Inr u"
    and "scheme u \<noteq> ''vscode-notebook-cell''"
    and "isWritableFileSystem h (scheme u) \<noteq> None"
    and "stat h u = Inr sz"
  shows "(1048576 < sz \<longrightarrow> file_read h raw = (Inr [], [Warn_too_large u sz]))
    \<and> (sz \<le> 1048576 \<longrightarrow>
        (\<forall>data. readFile h u = Inr data \<longrightarrow> file_read h raw = (Inr data, [])))"
  using assms(2-4) by (auto simp: file_read_parsed [OF assms(1)])

theorem file_read_size_limit_witness:
  "file_read sample_file_host ''file:///big.bin'' = (Inr [], [Warn_too_large big_uri 1048577])
   \<and> file_read sample_file_host ''file:///a.c'' = (Inr [0x61, 0x2E, 0x63], [])"
proof -
  have big: "scheme big_uri \<noteq> ''vscode-notebook-cell''"
      "isWritableFileSystem sample_file_host (scheme big_uri) \<noteq> None"
      "stat sample_file_host big_uri = Inr 1048577"
    by (simp_all add: big_uri_def small_uri_def locked_uri_def missing_uri_def
        sample_file_host_def)
  have small: "scheme small_uri \<noteq> ''vscode-notebook-cell''"
      "isWritableFileSystem sample_file_host (scheme small_uri) \<noteq> None"
      "stat sample_file_host small_uri = Inr 3"
      "readFile sample_file_host small_uri = Inr [0x61, 0x2E, 0x63]"
    by (simp_all add: small_uri_def locked_uri_def missing_uri_def sample_file_host_def)
  from file_read_size_limit [OF sample_parse(2) big]
  have 1: "file_read sample_file_host ''file:///big.bin'' =
      (Inr [], [Warn_too_large big_uri 1048577])"
    by simp
  from file_read_size_limit [OF sample_parse(1) small(1-3)] small(4)
  have 2: "file_read sample_file_host ''file:///a.c'' = (Inr [0x61, 0x2E, 0x63], [])"
    by simp
  from 1 2 show ?thesis by simp
qed

text \<open>
  C9. For a notebook-cell location whose document opens, the handler returns the
  encoding of the whole text: neither \<^verbatim>\<open>stat\<close> nor the 1 MiB bound is consulted
  on this branch, whatever the length of the text.
\<close>

theorem file_read_notebook_cell:
  assumes "uri_parse h raw = Inr u"
    and "scheme u = ''vscode-notebook-cell''"
    and "openTextDocument h u = Inr text"
  shows "file_read h raw = (Inr (textEncode h text), [])"
  using assms(2,3) by (simp add: file_read_parsed [OF assms(1)])

theorem file_read_notebook_cell_witness:
  "stat sample_file_host notebook_uri = Inr 1048577
   \<and> (\<exists>data. file_read sample_file_host ''vscode-notebook-cell:/nb.ipynb'' = (Inr data, [])
        \<and> length data = 1048577)"
proof -
  have nb: "scheme notebook_uri = ''vscode-notebook-cell''"
      "openTextDocument sample_file_host notebook_uri = Inr (replicate 1048577 (CHR ''a''))"
    by (simp_all add: notebook_uri_def sample_file_host_def)
  have len: "length (textEncode sample_file_host (replicate 1048577 (CHR ''a''))) = 1048577"
    by (simp add: sample_file_host_def)
  have st: "stat sample_file_host notebook_uri = Inr 1048577"
    by (simp add: sample_file_host_def notebook_uri_def small_uri_def locked_uri_def
        missing_uri_def)
  from file_read_notebook_cell [OF sample_parse(3) nb] len st show ?thesis
    by blast
qed

section \<open>Properties of the initial indexing request\<close>

lemma slice0_nonneg: "0 \<le> e \<Longrightarrow> slice0 xs e = take (min (length xs) (nat e)) xs"
  by (simp add: slice0_def min_def nat_le_iff) 

lemma slice0_all: "int (length xs) \<le> e \<Longrightarrow> slice0 xs e = xs"
  by (simp add: slice0_def min_def)

lemma configured_size_nonneg: "0 \<le> configured_size w"
  by (simp add: configured_size_def)

lemma init_not_queried:
  assumes "findFiles w p (exclude w) = Inr all" "length all \<le> 50 \<or> canInitWithoutLimits w = Inr False"
  shows "init w p sel =
    (let uris = take (min (length all) (nat (configured_size w))) all;
         request = [Console (Info_using (length uris) (length all) p),
                    SendRequest ''queue/init'' (map (uri_toString w) uris)]
     in case queue_init w (map (uri_toString w) uris) of
          Inl err \<Rightarrow> \<lparr>final_size = configured_size w, init_effects = request, init_outcome = Inl err\<rparr>
        | Inr done \<Rightarrow> \<lparr>final_size = configured_size w,
             init_effects = request @
               [Telemetry_init \<lparr>numOfFiles = length all, indexSize = length uris, hasWorkspaceContents = 0\<rparr>,
                ShowStatus sel (isRemoteHubWorkspace w)],
             init_outcome = Inr ()\<rparr>)"
  using assms by (auto simp: init_def Let_def slice0_nonneg configured_size_nonneg split: sum.splits)

lemma init_unlimited:
  assumes "findFiles w p (exclude w) = Inr all" "50 < length all" "canInitWithoutLimits w = Inr True"
    "int (length all) \<le> MAX_SAFE_INTEGER"
  shows "init w p sel =
    (let request = [Console (Info_using (length all) (length all) p),
                    SendRequest ''queue/init'' (map (uri_toString w) all)]
     in case queue_init w (map (uri_toString w) all) of
          Inl err \<Rightarrow> \<lparr>final_size = MAX_SAFE_INTEGER, init_effects = request, init_outcome = Inl err\<rparr>
        | Inr done \<Rightarrow> \<lparr>final_size = MAX_SAFE_INTEGER,
             init_effects = request @
               [Telemetry_init \<lparr>numOfFiles = length all, indexSize = length all, hasWorkspaceContents = 1\<rparr>,
                ShowStatus sel False],
             init_outcome = Inr ()\<rparr>)"
  using assms by (auto simp: init_def Let_def slice0_all split: sum.splits)

lemma init_query_rejected:
  assumes "findFiles w p (exclude w) = Inr all" "50 < length all" "canInitWithoutLimits w = Inl err"
  shows "init w p sel = \<lparr>final_size = configured_size w, init_effects = [], init_outcome = Inl err\<rparr>"
  using assms by (simp add: init_def Let_def)

lemma local_found: "findFiles local_workspace p (exclude local_workspace) = Inr sample_files"
  by (simp add: local_workspace_def)

lemma sample_len: "length sample_files = 100"
  by (simp add: sample_files_def)

text \<open>
  C1, as the code has it. For a run whose file discovery returned \<open>all\<close> (with F its
  length, a length a JavaScript array can have) and with C the configured
  \<^verbatim>\<open>symbolIndexSize\<close> (500 when not set, never below 0): the variable
  \<^verbatim>\<open>size\<close> ends as C when F is at most 50, as
  \<^verbatim>\<open>Number.MAX_SAFE_INTEGER\<close> when F exceeds 50 and the capability query answers
  true, and as C otherwise. When the query is not made or gives an answer, exactly one
  \<^verbatim>\<open>queue/init\<close> request is sent and it carries exactly the first min(F, cap)
  files in discovery order; when the server answers the request, exactly one
  \<^verbatim>\<open>init\<close> telemetry event follows, reporting F and that count, and when the
  request fails there is none. When the query is made and rejects, neither a request
  nor a telemetry event is sent.
\<close>

theorem init_submits_capped_prefix:
  assumes found: "findFiles w p (exclude w) = Inr all"
    and len: "int (length all) \<le> MAX_SAFE_INTEGER"
  shows "0 \<le> configured_size w
    \<and> (symbolIndexSize w = None \<longrightarrow> configured_size w = 500)
    \<and> final_size (init w p sel) =
        (case effective_cap (length all) (configured_size w) (canInitWithoutLimits w = Inr True) of
           None \<Rightarrow> MAX_SAFE_INTEGER
         | Some C \<Rightarrow> C)
    \<and> (length all \<le> 50 \<or> (\<exists>b. canInitWithoutLimits w = Inr b) \<longrightarrow>
          requests (init_effects (init w p sel)) =
            [map (uri_toString w)
              (take (capped (length all)
                 (effective_cap (length all) (configured_size w)
                   (canInitWithoutLimits w = Inr True))) all)]
          \<and> length (take (capped (length all)
                 (effective_cap (length all) (configured_size w)
                   (canInitWithoutLimits w = Inr True))) all)
              = capped (length all)
                 (effective_cap (length all) (configured_size w)
                   (canInitWithoutLimits w = Inr True))
          \<and> (queue_init w (map (uri_toString w)
                (take (capped (length all)
                   (effective_cap (length all) (configured_size w)
                     (canInitWithoutLimits w = Inr True))) all)) = Inr ()
              \<longrightarrow> (\<exists>t. telemetry (init_effects (init w p sel)) = [t]
                    \<and> numOfFiles t = length all
                    \<and> indexSize t = capped (length all)
                        (effective_cap (length all) (configured_size w)
                          (canInitWithoutLimits w = Inr True))))
          \<and> ((\<exists>err. queue_init w (map (uri_toString w)
                (take (capped (length all)
                   (effective_cap (length all) (configured_size w)
                     (canInitWithoutLimits w = Inr True))) all)) = Inl err)
              \<longrightarrow> telemetry (init_effects (init w p sel)) = []))
    \<and> (50 < length all \<and> (\<exists>err. canInitWithoutLimits w = Inl err) \<longrightarrow>
          requests (init_effects (init w p sel)) = []
          \<and> telemetry (init_effects (init w p sel)) = [])"
proof -
  consider (small) "length all \<le> 50 \<or> canInitWithoutLimits w = Inr False"
    | (unlimited) "50 < length all" "canInitWithoutLimits w = Inr True"
    | (rejected) err where "50 < length all" "canInitWithoutLimits w = Inl err"
    by (cases "canInitWithoutLimits w"; cases "length all \<le> 50") (auto simp: not_le)
  then show ?thesis
  proof cases
    case small
    then have cap: "effective_cap (length all) (configured_size w)
        (canInitWithoutLimits w = Inr True) = Some (configured_size w)"
      by (auto simp: effective_cap_def)
    show ?thesis
      unfolding cap init_not_queried [OF found small]
      using small
      by (auto simp: Let_def capped_def configured_size_def split: sum.splits option.splits)
  next
    case unlimited
    then have cap: "effective_cap (length all) (configured_size w)
        (canInitWithoutLimits w = Inr True) = None"
      by (auto simp: effective_cap_def)
    show ?thesis
      unfolding cap init_unlimited [OF found unlimited len]
      using unlimited
      by (auto simp: Let_def capped_def configured_size_def split: sum.splits option.splits)
  next
    case rejected
    then have cap: "effective_cap (length all) (configured_size w)
        (canInitWithoutLimits w = Inr True) = Some (configured_size w)"
      by (auto simp: effective_cap_def)
    show ?thesis
      unfolding cap init_query_rejected [OF found rejected]
      using rejected
      by (auto simp: configured_size_def split: option.splits)
  qed
qed

theorem init_submits_capped_prefix_witness:
  "findFiles local_workspace ''**/*.{c}'' (exclude local_workspace) = Inr sample_files
   \<and> length sample_files = 100
   \<and> requests (init_effects (init local_workspace ''**/*.{c}'' [''c''])) =
       [[''file:///a.c'', ''file:///big.bin'']]
   \<and> (\<exists>t. telemetry (init_effects (init local_workspace ''**/*.{c}'' [''c''])) = [t]
        \<and> numOfFiles t = 100 \<and> indexSize t = 2)"
proof -
  have len: "int (length sample_files) \<le> MAX_SAFE_INTEGER"
    by (simp add: sample_len MAX_SAFE_INTEGER_def)
  have q: "canInitWithoutLimits local_workspace = Inr False"
    by (simp add: canInitWithoutLimits_def local_workspace_def)
  have c: "configured_size local_workspace = 2"
    by (simp add: configured_size_def local_workspace_def)
  have n: "capped (length sample_files)
      (effective_cap (length sample_files) (configured_size local_workspace)
        (canInitWithoutLimits local_workspace = Inr True)) = 2"
    by (simp add: q c sample_len capped_def effective_cap_def)
  have ts: "uri_toString local_workspace u = scheme u @ ''://'' @ authority u @ path u" for u
    by (simp add: local_workspace_def)
  have qi: "queue_init local_workspace payload = Inr ()" for payload
    by (simp add: local_workspace_def)
  have first: "map (uri_toString local_workspace) (take 2 sample_files) =
      [''file:///a.c'', ''file:///big.bin'']"
    by (simp add: ts sample_files_def small_uri_def big_uri_def)
  have answered: "length sample_files \<le> 50
      \<or> (\<exists>b. canInitWithoutLimits local_workspace = Inr b)"
    using q by blast
  from init_submits_capped_prefix [OF local_found len, of "''**/*.{c}''" "[''c'']"] answered
  have "requests (init_effects (init local_workspace ''**/*.{c}'' [''c''])) =
        [map (uri_toString local_workspace) (take 2 sample_files)]
      \<and> (queue_init local_workspace
            (map (uri_toString local_workspace) (take 2 sample_files)) = Inr ()
          \<longrightarrow> (\<exists>t. telemetry (init_effects (init local_workspace ''**/*.{c}'' [''c''])) = [t]
                \<and> numOfFiles t = length sample_files \<and> indexSize t = 2))"
    unfolding n by blast
  then show ?thesis
    by (simp add: local_found sample_len qi first)
qed

text \<open>
  C1 as stated fails when the capability query is made and rejects: with 100 files
  found, a cap of 2, one remote folder and a remote-repositories extension whose
  activation fails, the claim's rule gives a cap of 2 and so 2 files to submit, and the
  run sends no \<^verbatim>\<open>queue/init\<close> request and no telemetry event.
\<close>

theorem init_query_rejected_counterexample:
  "length sample_files = 100
   \<and> capped 100 (effective_cap 100 (configured_size failing_activation_workspace)
        (canInitWithoutLimits failing_activation_workspace = Inr True)) = 2
   \<and> requests (init_effects (init failing_activation_workspace ''**/*.{c}'' [''c''])) = []
   \<and> telemetry (init_effects (init failing_activation_workspace ''**/*.{c}'' [''c''])) = []"
proof -
  have q: "canInitWithoutLimits failing_activation_workspace = Inl (Error ''activation failed'')"
    by (simp add: canInitWithoutLimits_def failing_activation_workspace_def local_workspace_def
        vfs_folder_def getRemoteHubExtension_def)
  have found: "findFiles failing_activation_workspace ''**/*.{c}''
      (exclude failing_activation_workspace) = Inr sample_files"
    by (simp add: failing_activation_workspace_def local_workspace_def)
  have c: "configured_size failing_activation_workspace = 2"
    by (simp add: configured_size_def failing_activation_workspace_def local_workspace_def)
  have "50 < length sample_files"
    by (simp add: sample_len)
  from init_query_rejected [OF found this q] c sample_len q show ?thesis
    by (simp add: capped_def effective_cap_def)
qed

lemma load_folders_false:
  "\<forall>x \<in> set xs. load x = Inr True \<Longrightarrow> load f = Inr False \<Longrightarrow>
    load_folders load (xs @ f # ys) = Inr False"
  by (induction xs) auto

text \<open>
  C6, as the code has it. A negative answer of the capability query leaves the cap at
  the configured value and the \<^verbatim>\<open>queue/init\<close> request is still sent, the run
  ending as the request ends. The query answers negatively when there is no workspace
  folder, when there are remote folders and no remote-repositories extension, when the
  extension's API is missing or has no \<^verbatim>\<open>loadWorkspaceContents\<close>, and when
  \<^verbatim>\<open>loadWorkspaceContents\<close> resolves to false for a remote folder after
  resolving to true for those before it.
\<close>

theorem capability_negative_answer_keeps_cap:
  "(workspaceFolders w = None \<longrightarrow> canInitWithoutLimits w = Inr False)
   \<and> (workspaceFolders w = Some folders
        \<and> filter (\<lambda>folder. scheme folder = ''vscode-vfs'') folders \<noteq> []
        \<and> getRemoteHubExtension w = None
      \<longrightarrow> canInitWithoutLimits w = Inr False)
   \<and> (workspaceFolders w = Some folders
        \<and> filter (\<lambda>folder. scheme folder = ''vscode-vfs'') folders \<noteq> []
        \<and> getRemoteHubExtension w = Some remoteHub
        \<and> (activate remoteHub = Inr None
            \<or> (\<exists>api. activate remoteHub = Inr (Some api) \<and> loadWorkspaceContents api = None))
      \<longrightarrow> canInitWithoutLimits w = Inr False)
   \<and> (workspaceFolders w = Some folders
        \<and> filter (\<lambda>folder. scheme folder = ''vscode-vfs'') folders = loaded @ folder # rest
        \<and> getRemoteHubExtension w = Some remoteHub
        \<and> activate remoteHub = Inr (Some api)
        \<and> loadWorkspaceContents api = Some load
        \<and> (\<forall>x \<in> set loaded. load x = Inr True)
        \<and> load folder = Inr False
      \<longrightarrow> canInitWithoutLimits w = Inr False)
   \<and> (findFiles w p (exclude w) = Inr all \<and> canInitWithoutLimits w = Inr False
      \<longrightarrow> final_size (init w p sel) = configured_size w
        \<and> requests (init_effects (init w p sel)) =
            [map (uri_toString w) (take (min (length all) (nat (configured_size w))) all)]
        \<and> init_outcome (init w p sel) =
            queue_init w
              (map (uri_toString w) (take (min (length all) (nat (configured_size w))) all)))"
proof -
  have a: "workspaceFolders w = None \<longrightarrow> canInitWithoutLimits w = Inr False"
    by (simp add: canInitWithoutLimits_def)
  have b: "workspaceFolders w = Some folders
        \<and> filter (\<lambda>folder. scheme folder = ''vscode-vfs'') folders \<noteq> []
        \<and> getRemoteHubExtension w = None
      \<longrightarrow> canInitWithoutLimits w = Inr False"
    by (simp add: canInitWithoutLimits_def Let_def)
  have c: "workspaceFolders w = Some folders
        \<and> filter (\<lambda>folder. scheme folder = ''vscode-vfs'') folders \<noteq> []
        \<and> getRemoteHubExtension w = Some remoteHub
        \<and> (activate remoteHub = Inr None
            \<or> (\<exists>api. activate remoteHub = Inr (Some api) \<and> loadWorkspaceContents api = None))
      \<longrightarrow> canInitWithoutLimits w = Inr False"
    by (auto simp: canInitWithoutLimits_def Let_def)
  have d: "workspaceFolders w = Some folders
        \<and> filter (\<lambda>folder. scheme folder = ''vscode-vfs'') folders = loaded @ folder # rest
        \<and> getRemoteHubExtension w = Some remoteHub
        \<and> activate remoteHub = Inr (Some api)
        \<and> loadWorkspaceContents api = Some load
        \<and> (\<forall>x \<in> set loaded. load x = Inr True)
        \<and> load folder = Inr False
      \<longrightarrow> canInitWithoutLimits w = Inr False"
    by (simp add: canInitWithoutLimits_def Let_def load_folders_false)
  have e: "findFiles w p (exclude w) = Inr all \<and> canInitWithoutLimits w = Inr False
      \<longrightarrow> final_size (init w p sel) = configured_size w
        \<and> requests (init_effects (init w p sel)) =
            [map (uri_toString w) (take (min (length all) (nat (configured_size w))) all)]
        \<and> init_outcome (init w p sel) =
            queue_init w
              (map (uri_toString w) (take (min (length all) (nat (configured_size w))) all))"
  proof (intro impI, elim conjE)
    assume found: "findFiles w p (exclude w) = Inr all"
      and q: "canInitWithoutLimits w = Inr False"
    show "final_size (init w p sel) = configured_size w
        \<and> requests (init_effects (init w p sel)) =
            [map (uri_toString w) (take (min (length all) (nat (configured_size w))) all)]
        \<and> init_outcome (init w p sel) =
            queue_init w
              (map (uri_toString w) (take (min (length all) (nat (configured_size w))) all))"
      by (simp add: init_not_queried [OF found disjI2 [OF q]] Let_def split: sum.splits)
  qed
  from a b c d e show ?thesis by blast
qed

theorem capability_negative_answer_keeps_cap_witness:
  "workspaceFolders local_workspace = None
   \<and> canInitWithoutLimits local_workspace = Inr False
   \<and> final_size (init local_workspace ''**/*.{c}'' [''c'']) = 2
   \<and> init_outcome (init local_workspace ''**/*.{c}'' [''c'']) = Inr ()"
proof -
  have n: "workspaceFolders local_workspace = None"
    by (simp add: local_workspace_def)
  have c: "configured_size local_workspace = 2"
    by (simp add: configured_size_def local_workspace_def)
  have qi: "queue_init local_workspace payload = Inr ()" for payload
    by (simp add: local_workspace_def)
  from capability_negative_answer_keeps_cap
    [of local_workspace _ _ _ _ _ _ _ "''**/*.{c}''" sample_files "[''c'']"]
    n local_found [of "''**/*.{c}''"]
  show ?thesis
    by (simp add: c qi)
qed

text \<open>
  C6 as stated fails when the query itself fails: with 100 files found, one remote
  folder and a \<^verbatim>\<open>loadWorkspaceContents\<close> that rejects, the rejection leaves
  \<^verbatim>\<open>_canInitWithoutLimits\<close> and the run, and no \<^verbatim>\<open>queue/init\<close> request
  is sent.
\<close>

theorem capability_query_rejection_counterexample:
  "length sample_files = 100
   \<and> canInitWithoutLimits failing_remote_workspace = Inl (Error ''network error'')
   \<and> init failing_remote_workspace ''**/*.{c}'' [''c''] =
       \<lparr>final_size = 2, init_effects = [], init_outcome = Inl (Error ''network error'')\<rparr>"
proof -
  have q: "canInitWithoutLimits failing_remote_workspace = Inl (Error ''network error'')"
    by (simp add: canInitWithoutLimits_def failing_remote_workspace_def local_workspace_def
        vfs_folder_def getRemoteHubExtension_def)
  have found: "findFiles failing_remote_workspace ''**/*.{c}'' (exclude failing_remote_workspace)
      = Inr sample_files"
    by (simp add: failing_remote_workspace_def local_workspace_def)
  have c: "configured_size failing_remote_workspace = 2"
    by (simp add: configured_size_def failing_remote_workspace_def local_workspace_def)
  have "50 < length sample_files"
    by (simp add: sample_len)
  from init_query_rejected [OF found this q] c sample_len q show ?thesis
    by simp
qed

section \<open>Properties of starting a server\<close>

lemma selector_empty: "client_selector langs = [] \<longleftrightarrow> langs = []"
  by (simp add: client_selector_def)

lemma start_sent:
  "langs \<noteq> [] \<Longrightarrow>
    sent_databaseNames (fst (snd (startServer' w langs random ws))) =
      [case ws ''dbName'' of None \<Rightarrow> ''anycode_'' @ random | Some name \<Rightarrow> name]
    \<and> snd (snd (startServer' w langs random ws)) =
      ws(''dbName'' \<mapsto> (case ws ''dbName'' of None \<Rightarrow> ''anycode_'' @ random | Some name \<Rightarrow> name))"
  by (simp add: startServer'_def Let_def selector_empty split: sum.splits)

lemma start_none:
  "langs = [] \<Longrightarrow>
    sent_databaseNames (fst (snd (startServer' w langs random ws))) = []
    \<and> snd (snd (startServer' w langs random ws)) = ws"
  by (simp add: startServer'_def Let_def selector_empty)

lemma start_persisted:
  assumes "ws ''dbName'' = Some name"
  shows "set (sent_databaseNames (fst (snd (startServer' w langs random ws)))) \<subseteq> {name}
    \<and> snd (snd (startServer' w langs random ws)) = ws"
proof (cases "langs = []")
  case True
  then show ?thesis by (simp add: start_none)
next
  case False
  have "ws(''dbName'' \<mapsto> name) = ws"
    using assms by (rule map_upd_triv)
  with False assms show ?thesis by (simp add: start_sent)
qed

lemma starts_persisted:
  "ws ''dbName'' = Some name \<Longrightarrow>
    set (fst (server_starts runs ws)) \<subseteq> {name} \<and> snd (server_starts runs ws) = ws"
proof (induction runs)
  case Nil
  then show ?case by simp
next
  case (Cons r runs)
  obtain w langs random where r: "r = (w, langs, random)"
    by (cases r) auto
  from start_persisted [of ws name w langs random, OF Cons.prems] Cons.IH [OF Cons.prems]
  show ?case
    by (auto simp: r split: prod.splits)
qed

lemma starts_one_name: "\<exists>name. set (fst (server_starts runs ws)) \<subseteq> {name}"
proof (induction runs arbitrary: ws)
  case Nil
  then show ?case by simp
next
  case (Cons r runs)
  obtain w langs random where r: "r = (w, langs, random)"
    by (cases r) auto
  show ?case
  proof (cases "langs = []")
    case True
    from Cons.IH [of ws] obtain n where n: "set (fst (server_starts runs ws)) \<subseteq> {n}"
      by blast
    from start_none [OF True, of w random ws] n
    have "set (fst (server_starts (r # runs) ws)) \<subseteq> {n}"
      by (auto simp: r split: prod.splits)
    then show ?thesis by blast
  next
    case False
    let ?n = "case ws ''dbName'' of None \<Rightarrow> ''anycode_'' @ random | Some name \<Rightarrow> name"
    let ?ws = "ws(''dbName'' \<mapsto> ?n)"
    have "?ws ''dbName'' = Some ?n" by simp
    from starts_persisted [of ?ws ?n runs, OF this] start_sent [OF False, of w random ws]
    have "set (fst (server_starts (r # runs) ws)) \<subseteq> {?n}"
      by (auto simp: r split: prod.splits)
    then show ?thesis by blast
  qed
qed

text \<open>
  C7. With no enabled language (the document selector then has length 0)
  \<^verbatim>\<open>_startServer\<close> is fulfilled with a disposable that releases nothing; all it
  does is write one line to the console: no file watcher and no language client is
  created, none is started, and the workspace state is not touched.
\<close>

theorem startServer_no_languages:
  "(langs = [] \<longleftrightarrow> client_selector langs = [])
   \<and> (langs = [] \<longrightarrow>
        startServer' w langs random ws =
          (Inr (Disposable []),
           [Console (Log ''[anycode] NO supported languages, no server needed'')],
           ws))"
  by (auto simp: startServer'_def Let_def selector_empty)

theorem startServer_no_languages_witness:
  "startServer' local_workspace [] ''4fq2'' Map.empty =
    (Inr (Disposable []),
     [Console (Log ''[anycode] NO supported languages, no server needed'')],
     Map.empty)"
  using startServer_no_languages [of "[]" local_workspace "''4fq2''" Map.empty] by simp

lemma start_creates_server:
  "langs \<noteq> [] \<Longrightarrow>
    (\<exists>p opts rest. fst (snd (startServer' w langs random ws)) =
       CreateFileSystemWatcher p # CreateLanguageClient ''anycode'' ''anycode'' opts
         # ClientStart # rest)"
  by (simp add: startServer'_def Let_def selector_empty split: sum.splits)

text \<open>
  C8. A start that creates a client on a workspace with no persisted name sends
  \<^verbatim>\<open>anycode_\<close> followed by the random string of that call and persists it
  under \<^verbatim>\<open>dbName\<close>; a start on a workspace with a persisted name sends that
  name, whatever the random string of the call, and leaves the workspace state as it
  is; a start with no enabled language sends nothing and leaves the state as it is. So
  over any sequence of starts on a workspace every name sent is one and the same, and
  it is the persisted one when there was one at the beginning.
\<close>

theorem database_name_persisted:
  "(langs \<noteq> [] \<and> ws ''dbName'' = None \<longrightarrow>
      sent_databaseNames (fst (snd (startServer' w langs random ws))) = [''anycode_'' @ random]
      \<and> snd (snd (startServer' w langs random ws)) = ws(''dbName'' \<mapsto> ''anycode_'' @ random))
   \<and> (langs \<noteq> [] \<and> ws ''dbName'' = Some name \<longrightarrow>
      sent_databaseNames (fst (snd (startServer' w langs random ws))) = [name]
      \<and> snd (snd (startServer' w langs random ws)) = ws)
   \<and> (langs = [] \<longrightarrow>
      sent_databaseNames (fst (snd (startServer' w langs random ws))) = []
      \<and> snd (snd (startServer' w langs random ws)) = ws)
   \<and> (ws ''dbName'' = Some name \<longrightarrow>
      set (fst (server_starts runs ws)) \<subseteq> {name} \<and> snd (server_starts runs ws) = ws)
   \<and> (\<exists>n. set (fst (server_starts runs ws)) \<subseteq> {n})"
proof -
  have 1: "langs \<noteq> [] \<and> ws ''dbName'' = None \<longrightarrow>
      sent_databaseNames (fst (snd (startServer' w langs random ws))) = [''anycode_'' @ random]
      \<and> snd (snd (startServer' w langs random ws)) = ws(''dbName'' \<mapsto> ''anycode_'' @ random)"
    using start_sent [of langs w random ws] by simp
  have 2: "langs \<noteq> [] \<and> ws ''dbName'' = Some name \<longrightarrow>
      sent_databaseNames (fst (snd (startServer' w langs random ws))) = [name]
      \<and> snd (snd (startServer' w langs random ws)) = ws"
    using start_sent [of langs w random ws] map_upd_triv [of ws "''dbName''" name] by simp
  have 3: "langs = [] \<longrightarrow>
      sent_databaseNames (fst (snd (startServer' w langs random ws))) = []
      \<and> snd (snd (startServer' w langs random ws)) = ws"
    using start_none [of langs w random ws] by simp
  from 1 2 3 starts_persisted [of ws name runs] starts_one_name [of runs ws]
  show ?thesis by blast
qed

theorem database_name_persisted_witness:
  "fst (server_starts
      [(local_workspace, [c_language], ''4fq2''), (local_workspace, [], ''9zz1''),
       (local_workspace, [c_language], ''7abc'')] Map.empty)
    = [''anycode_4fq2'', ''anycode_4fq2'']
   \<and> fst (server_starts [(local_workspace, [c_language], ''7abc'')]
        [''dbName'' \<mapsto> ''anycode_4fq2'']) = [''anycode_4fq2'']"
proof -
  have p: "[''dbName'' \<mapsto> ''anycode_4fq2''] ''dbName'' = Some ''anycode_4fq2''"
    by simp
  have s: "fst (server_starts
      [(local_workspace, [c_language], ''4fq2''), (local_workspace, [], ''9zz1''),
       (local_workspace, [c_language], ''7abc'')] Map.empty)
    = [''anycode_4fq2'', ''anycode_4fq2'']"
    by (simp add: startServer'_def Let_def client_selector_def c_language_def
        local_workspace_def split: prod.splits)
  have t: "fst (server_starts [(local_workspace, [c_language], ''7abc'')]
        [''dbName'' \<mapsto> ''anycode_4fq2'']) \<noteq> []"
    by (simp add: startServer'_def Let_def client_selector_def c_language_def
        local_workspace_def split: prod.splits)
  from database_name_persisted
    [of "[c_language]" "[''dbName'' \<mapsto> ''anycode_4fq2'']" local_workspace "''7abc''"
      "''anycode_4fq2''" "[(local_workspace, [c_language], ''7abc'')]"] p
  have "set (fst (server_starts [(local_workspace, [c_language], ''7abc'')]
        [''dbName'' \<mapsto> ''anycode_4fq2''])) \<subseteq> {''anycode_4fq2''}"
    by blast
  with t s show ?thesis
    by (simp add: startServer'_def Let_def client_selector_def c_language_def
        local_workspace_def split: prod.splits)
qed

section \<open>Properties of startClient\<close>

text \<open>
  C3 as stated fails when a notification arrives while the handler of the one before
  is still suspended. Two notifications come before the first server's promise
  settles: the second handler finds \<^verbatim>\<open>serverHandles\<close> empty, so it starts server 1
  at once, before server 0 is disposed; when promise 0 is fulfilled the first handler
  disposes server 0 and starts server 2. No handler is left suspended, and two handles
  are current.
\<close>

theorem restart_overlap_counterexample:
  "serverHandles (client_after [LanguagesChanged, LanguagesChanged, Settled 0 Fulfilled]) = [1, 2]
   \<and> stopping (client_after [LanguagesChanged, LanguagesChanged, Settled 0 Fulfilled]) = []
   \<and> actions (client_after [LanguagesChanged, LanguagesChanged, Settled 0 Fulfilled]) =
       [Started 0 [], Started 1 [], Disposed 0, Started 2 [0]]"
  by (simp add: client_after_def startClient_def startServer_def stopServers_begin_def
      run_microtasks_def allSettled_def stopServers_resume_def Let_def)

lemma notify_quiescent:
  assumes "stopping c = []"
  shows "waiting_for c (serverHandles c) (handle c LanguagesChanged)
    \<or> restarted_from c (serverHandles c) (handle c LanguagesChanged)"
  using assms
  by (auto simp: waiting_for_def restarted_from_def run_microtasks_def stopServers_begin_def
      allSettled_def stopServers_resume_def startServer_def Let_def)

lemma filter_fulfilled_upd:
  "list_all (\<lambda>x. m x \<noteq> None) hs \<Longrightarrow> m h = None \<Longrightarrow>
    filter (\<lambda>x. (m(h \<mapsto> out)) x = Some Fulfilled) hs = filter (\<lambda>x. m x = Some Fulfilled) hs"
  by (induction hs) auto

lemma step_waiting:
  assumes "waiting_for c hs d"
  shows "waiting_for c hs (handle d (Settled h out))
    \<or> restarted_from c hs (handle d (Settled h out))"
  using assms
  by (auto simp: waiting_for_def restarted_from_def run_microtasks_def
      allSettled_def stopServers_resume_def startServer_def Let_def)

lemma step_restarted:
  assumes "restarted_from c hs d"
  shows "restarted_from c hs (handle d (Settled h out))"
proof (cases "h < started d \<and> settlement d h = None")
  case True
  with assms have all: "list_all (\<lambda>x. settlement d x \<noteq> None) hs"
    by (simp add: restarted_from_def)
  from True have none: "settlement d h = None" by simp
  have still: "list_all (\<lambda>x. ((settlement d)(h \<mapsto> out)) x \<noteq> None) hs"
    using all by (induction hs) auto
  from assms True still show ?thesis
    by (simp add: restarted_from_def run_microtasks_def filter_fulfilled_upd [OF all none]
        del: fun_upd_apply)
next
  case False
  with assms show ?thesis by auto
qed

lemma notify_then_cases:
  assumes "stopping c = []" and "list_all is_settlement evs"
  shows "waiting_for c (serverHandles c) (notify_then evs c)
    \<or> restarted_from c (serverHandles c) (notify_then evs c)"
  using assms(2)
proof (induction evs rule: rev_induct)
  case Nil
  show ?case using notify_quiescent [OF assms(1)] by (simp add: notify_then_def)
next
  case (snoc e evs)
  then obtain h out where e: "e = Settled h out"
    by (cases e) auto
  from snoc have "waiting_for c (serverHandles c) (notify_then evs c)
    \<or> restarted_from c (serverHandles c) (notify_then evs c)"
    by simp
  then show ?case
    using step_waiting [of c "serverHandles c" "notify_then evs c" h out]
      step_restarted [of c "serverHandles c" "notify_then evs c" h out]
    by (auto simp: notify_then_def e)
qed


lemma rounds_one_handle:
  "stopping c = [] \<Longrightarrow> separate_rounds rs c \<Longrightarrow>
    stopping (rounds_after rs c) = []
    \<and> (rs \<noteq> [] \<longrightarrow> length (serverHandles (rounds_after rs c)) = 1)"
proof (induction rs arbitrary: c)
  case Nil
  then show ?case by simp
next
  case (Cons r rs)
  let ?d = "notify_then r c"
  from Cons.prems have r: "list_all is_settlement r" and quiet: "stopping ?d = []"
    and rest: "separate_rounds rs ?d"
    by simp_all
  from notify_then_cases [OF Cons.prems(1) r] quiet
  have one: "serverHandles ?d = [started c]"
    by (auto simp: waiting_for_def restarted_from_def)
  from Cons.IH [OF quiet rest] one show ?case
    by (cases rs) auto
qed

lemma resume_all_handles:
  "length (serverHandles (resume_all ks c)) = length (serverHandles c) + length (filter snd ks)
   \<and> stopping (resume_all ks c) = stopping c"
  by (induction ks arbitrary: c) (auto simp: stopServers_resume_def startServer_def Let_def)

lemma filter_split_length:
  "length (filter Q (filter P xs)) + length (filter Q (filter (\<lambda>x. \<not> P x) xs))
    = length (filter Q xs)"
  by (induction xs) auto

lemma run_microtasks_total:
  "length (serverHandles (run_microtasks c)) + restarts_pending (run_microtasks c)
    = length (serverHandles c) + restarts_pending c"
  using filter_split_length [of snd "allSettled c" "stopping c"]
  by (simp add: run_microtasks_def restarts_pending_def resume_all_handles)

lemma run_microtasks_pending:
  "restarts_pending (run_microtasks c) \<le> restarts_pending c"
  using filter_split_length [of snd "allSettled c" "stopping c"]
  by (simp add: run_microtasks_def restarts_pending_def resume_all_handles)

lemma handle_change_total:
  "length (serverHandles (handle c LanguagesChanged)) + restarts_pending (handle c LanguagesChanged)
    = Suc (restarts_pending c)
   \<and> restarts_pending (handle c LanguagesChanged) \<le> Suc (restarts_pending c)"
  using run_microtasks_total [of "stopServers_begin True c"]
    run_microtasks_pending [of "stopServers_begin True c"]
  by (simp add: stopServers_begin_def restarts_pending_def)

lemma handle_settled_total:
  "length (serverHandles (handle c (Settled h out))) + restarts_pending (handle c (Settled h out))
    = length (serverHandles c) + restarts_pending c
   \<and> restarts_pending (handle c (Settled h out)) \<le> restarts_pending c"
  using run_microtasks_total [of "c\<lparr>settlement := (settlement c)(h \<mapsto> out)\<rparr>"]
    run_microtasks_pending [of "c\<lparr>settlement := (settlement c)(h \<mapsto> out)\<rparr>"]
  by (simp add: restarts_pending_def)

lemma client_after_snoc: "client_after (evs @ [e]) = handle (client_after evs) e"
  by (simp add: client_after_def)

lemma client_total:
  "Deactivate \<notin> set evs \<Longrightarrow>
    1 \<le> length (serverHandles (client_after evs)) + restarts_pending (client_after evs)
    \<and> length (serverHandles (client_after evs)) + restarts_pending (client_after evs)
        \<le> max 1 (count_list evs LanguagesChanged)
    \<and> restarts_pending (client_after evs) \<le> count_list evs LanguagesChanged"
proof (induction evs rule: rev_induct)
  case Nil
  show ?case
    by (simp add: client_after_def startClient_def startServer_def restarts_pending_def)
next
  case (snoc e evs)
  then have IH: "1 \<le> length (serverHandles (client_after evs)) + restarts_pending (client_after evs)"
      "length (serverHandles (client_after evs)) + restarts_pending (client_after evs)
        \<le> max 1 (count_list evs LanguagesChanged)"
      "restarts_pending (client_after evs) \<le> count_list evs LanguagesChanged"
    by simp_all
  show ?case
  proof (cases e)
    case LanguagesChanged
    with IH handle_change_total [of "client_after evs"] show ?thesis
      by (simp add: client_after_snoc)
  next
    case Deactivate
    with snoc.prems show ?thesis by simp
  next
    case (Settled h out)
    with IH handle_settled_total [of "client_after evs" h out] show ?thesis
      by (simp add: client_after_snoc)
  qed
qed


lemma append_eq_mid:
  "xs @ ys = pre @ a # post \<Longrightarrow>
    (\<exists>us. xs = pre @ a # us \<and> post = us @ ys) \<or> (\<exists>us. pre = xs @ us \<and> ys = us @ a # post)"
  by (auto simp: append_eq_append_conv2 append_eq_Cons_conv Cons_eq_append_conv)

lemma disposed_only: "map Disposed xs \<noteq> us @ Started n hs # post"
proof
  assume "map Disposed xs = us @ Started n hs # post"
  then have "Started n hs \<in> set (map Disposed xs)" by simp
  then show False by auto
qed

lemma resume_fields:
  "settlement (stopServers_resume k c) = settlement c"
  "stopping (stopServers_resume k c) = stopping c"
  "started c \<le> started (stopServers_resume k c)"
  "set (actions c) \<subseteq> set (actions (stopServers_resume k c))"
  by (auto simp: stopServers_resume_def startServer_def Let_def)

lemma resume_all_fields:
  "settlement (resume_all ks c) = settlement c"
  "stopping (resume_all ks c) = stopping c"
  "started c \<le> started (resume_all ks c)"
  "set (actions c) \<subseteq> set (actions (resume_all ks c))"
proof (induction ks arbitrary: c)
  case Nil
  {
    case 1 show ?case by simp
  next
    case 2 show ?case by simp
  next
    case 3 show ?case by simp
  next
    case 4 show ?case by simp
  }
next
  case (Cons k ks)
  {
    case 1 show ?case by (simp add: Cons.IH(1) resume_fields)
  next
    case 2 show ?case by (simp add: Cons.IH(2) resume_fields)
  next
    case 3 show ?case
      using Cons.IH(3) [of "stopServers_resume k c"] resume_fields(3) [of c k] by simp
  next
    case 4 show ?case
      using Cons.IH(4) [of "stopServers_resume k c"] resume_fields(4) [of c k] by auto
  }
qed

lemma resume_started_after_await:
  assumes "allSettled c k" and "started_after_await c"
  shows "started_after_await (stopServers_resume k c)"
  unfolding started_after_await_def
proof (intro allI impI ballI)
  fix pre n hs post h
  assume eq: "actions (stopServers_resume k c) = pre @ Started n hs # post" and h: "h \<in> set hs"
  let ?ds = "map Disposed (filter (\<lambda>h. settlement c h = Some Fulfilled) (fst k))"
  have m: "settlement (stopServers_resume k c) = settlement c"
    by (rule resume_fields)
  show "settlement (stopServers_resume k c) h \<noteq> None
      \<and> (settlement (stopServers_resume k c) h = Some Fulfilled \<longrightarrow> Disposed h \<in> set pre)"
  proof (cases "snd k")
    case False
    then have "actions c @ ?ds = pre @ Started n hs # post"
      using eq by (simp add: stopServers_resume_def Let_def)
    from append_eq_mid [OF this] obtain us where "actions c = pre @ Started n hs # us"
      by (auto simp: disposed_only)
    with assms(2) h show ?thesis
      unfolding m started_after_await_def by blast
  next
    case True
    then have "(actions c @ ?ds) @ [Started (started c) (fst k)] = pre @ Started n hs # post"
      using eq by (simp add: stopServers_resume_def startServer_def Let_def)
    from append_eq_mid [OF this]
    consider (old) us where "actions c @ ?ds = pre @ Started n hs # us"
      | (new) "pre = actions c @ ?ds" "hs = fst k"
      by (auto simp: Cons_eq_append_conv)
    then show ?thesis
    proof cases
      case old
      from append_eq_mid [OF old] obtain vs where "actions c = pre @ Started n hs # vs"
        by (auto simp: disposed_only)
      with assms(2) h show ?thesis
        unfolding m started_after_await_def by blast
    next
      case new
      with assms(1) h show ?thesis
        unfolding m by (auto simp: allSettled_def list_all_iff)
    qed
  qed
qed

lemma resume_disposed_fulfilled:
  assumes "disposed_fulfilled c"
  shows "disposed_fulfilled (stopServers_resume k c)"
  using assms
  by (auto simp: disposed_fulfilled_def stopServers_resume_def startServer_def Let_def)

lemma resume_accounted:
  assumes "allSettled c k" and "accounted (k # ks) c"
  shows "accounted ks (stopServers_resume k c)"
  unfolding accounted_def
proof (intro allI impI)
  fix h
  let ?d = "stopServers_resume k c"
  assume lt: "h < started ?d"
  have fields: "settlement ?d = settlement c" "stopping ?d = stopping c"
    by (rule resume_fields)+
  have acts: "set (actions c) \<subseteq> set (actions ?d)"
    by (rule resume_fields)
  have cur: "set (serverHandles c) \<subseteq> set (serverHandles ?d)"
    by (auto simp: stopServers_resume_def startServer_def Let_def)
  have disp: "x \<in> set (fst k) \<Longrightarrow> settlement c x = Some Fulfilled \<Longrightarrow>
      Disposed x \<in> set (actions ?d)" for x
    by (auto simp: stopServers_resume_def startServer_def Let_def)
  have new: "started c \<le> h \<Longrightarrow> h \<in> set (serverHandles ?d)"
    using lt by (auto simp: stopServers_resume_def startServer_def Let_def split: if_splits)
  show "h \<in> set (serverHandles ?d)
       \<or> (\<exists>k \<in> set (stopping ?d) \<union> set ks. h \<in> set (fst k))
       \<or> (settlement ?d h \<noteq> None
           \<and> (settlement ?d h = Some Fulfilled \<longrightarrow> Disposed h \<in> set (actions ?d)))"
  proof (cases "h < started c")
    case False
    with new show ?thesis by simp
  next
    case True
    with assms(2) have "h \<in> set (serverHandles c)
       \<or> (\<exists>k' \<in> set (stopping c) \<union> set (k # ks). h \<in> set (fst k'))
       \<or> (settlement c h \<noteq> None
           \<and> (settlement c h = Some Fulfilled \<longrightarrow> Disposed h \<in> set (actions c)))"
      unfolding accounted_def by blast
    moreover have "h \<in> set (fst k) \<Longrightarrow> settlement c h \<noteq> None"
      using assms(1) by (auto simp: allSettled_def list_all_iff)
    ultimately show ?thesis
      unfolding fields using cur acts disp by auto
  qed
qed

lemma resume_all_inv:
  assumes "list_all (allSettled c) ks"
    and "started_after_await c" and "disposed_fulfilled c" and "accounted ks c"
  shows "started_after_await (resume_all ks c) \<and> disposed_fulfilled (resume_all ks c)
    \<and> accounted [] (resume_all ks c)"
  using assms
proof (induction ks arbitrary: c)
  case Nil
  then show ?case by simp
next
  case (Cons k ks)
  let ?d = "stopServers_resume k c"
  from Cons.prems(1) have k: "allSettled c k" and ks: "list_all (allSettled c) ks"
    by simp_all
  have "allSettled ?d = allSettled c"
    by (simp add: allSettled_def fun_eq_iff resume_fields)
  with ks have 1: "list_all (allSettled ?d) ks" by simp
  from Cons.IH [OF 1 resume_started_after_await [OF k Cons.prems(2)]
      resume_disposed_fulfilled [OF Cons.prems(3)] resume_accounted [OF k Cons.prems(4)]]
  show ?case by simp
qed

lemma run_microtasks_inv:
  assumes "started_after_await c" and "disposed_fulfilled c" and "accounted [] c"
  shows "started_after_await (run_microtasks c) \<and> disposed_fulfilled (run_microtasks c)
    \<and> accounted [] (run_microtasks c)
    \<and> (\<forall>k \<in> set (stopping (run_microtasks c)). \<not> allSettled (run_microtasks c) k)"
proof -
  let ?c = "c\<lparr>stopping := filter (\<lambda>k. \<not> allSettled c k) (stopping c)\<rparr>"
  let ?ks = "filter (allSettled c) (stopping c)"
  have same: "allSettled ?c = allSettled c"
    by (simp add: allSettled_def fun_eq_iff)
  have 1: "list_all (allSettled ?c) ?ks"
    by (simp add: same list_all_iff)
  have 2: "started_after_await ?c"
    using assms(1) by (simp add: started_after_await_def)
  have 3: "disposed_fulfilled ?c"
    using assms(2) by (simp add: disposed_fulfilled_def)
  have 4: "accounted ?ks ?c"
    using assms(3) by (fastforce simp: accounted_def)
  have 5: "\<forall>k \<in> set (stopping (run_microtasks c)). \<not> allSettled (run_microtasks c) k"
    by (simp add: run_microtasks_def resume_all_fields allSettled_def)
  from resume_all_inv [OF 1 2 3 4] 5 show ?thesis
    by (simp add: run_microtasks_def)
qed

lemma begin_ok:
  assumes "history_ok c"
  shows "started_after_await (stopServers_begin r c) \<and> disposed_fulfilled (stopServers_begin r c)
    \<and> accounted [] (stopServers_begin r c)"
  using assms
  by (auto simp: history_ok_def started_after_await_def disposed_fulfilled_def accounted_def
      stopServers_begin_def)

lemma settle_ok:
  assumes "history_ok c" and "settlement c h = None"
  shows "started_after_await (c\<lparr>settlement := (settlement c)(h \<mapsto> out)\<rparr>)
    \<and> disposed_fulfilled (c\<lparr>settlement := (settlement c)(h \<mapsto> out)\<rparr>)
    \<and> accounted [] (c\<lparr>settlement := (settlement c)(h \<mapsto> out)\<rparr>)"
proof (intro conjI)
  show "started_after_await (c\<lparr>settlement := (settlement c)(h \<mapsto> out)\<rparr>)"
    using assms unfolding history_ok_def started_after_await_def
    by (simp, metis option.distinct(1))
  show "disposed_fulfilled (c\<lparr>settlement := (settlement c)(h \<mapsto> out)\<rparr>)"
    using assms unfolding history_ok_def disposed_fulfilled_def
    by (simp, metis option.distinct(1))
  show "accounted [] (c\<lparr>settlement := (settlement c)(h \<mapsto> out)\<rparr>)"
    using assms unfolding history_ok_def accounted_def
    by (simp, metis option.distinct(1))
qed

lemma handle_ok:
  assumes "history_ok c"
  shows "history_ok (handle c e)"
proof (cases e)
  case LanguagesChanged
  from begin_ok [OF assms, of True] show ?thesis
    unfolding LanguagesChanged history_ok_def by (simp add: run_microtasks_inv)
next
  case Deactivate
  from begin_ok [OF assms, of False] show ?thesis
    unfolding Deactivate history_ok_def by (simp add: run_microtasks_inv)
next
  case (Settled h out)
  show ?thesis
  proof (cases "h < started c \<and> settlement c h = None")
    case True
    then have none: "settlement c h = None" by simp
    from settle_ok [OF assms none, of out] True show ?thesis
      unfolding Settled history_ok_def by (simp add: run_microtasks_inv)
  next
    case False
    with assms show ?thesis
      unfolding Settled by auto
  qed
qed

lemma client_after_ok: "history_ok (client_after evs)"
proof (induction evs rule: rev_induct)
  case Nil
  show ?case
    by (auto simp: client_after_def startClient_def startServer_def history_ok_def
        started_after_await_def disposed_fulfilled_def accounted_def
        append_eq_Cons_conv Cons_eq_append_conv)
next
  case (snoc e evs)
  then show ?case by (simp add: client_after_snoc handle_ok)
qed


lemma resume_all_started:
  "k \<in> set ks \<Longrightarrow> snd k \<Longrightarrow>
    \<exists>n \<ge> started c. Started n (fst k) \<in> set (actions (resume_all ks c))"
proof (induction ks arbitrary: c)
  case Nil
  then show ?case by simp
next
  case (Cons a ks)
  let ?d = "stopServers_resume a c"
  show ?case
  proof (cases "k = a")
    case True
    with Cons.prems have "Started (started c) (fst k) \<in> set (actions ?d)"
      by (simp add: stopServers_resume_def startServer_def Let_def)
    with resume_all_fields(4) [of ?d ks]
    have "Started (started c) (fst k) \<in> set (actions (resume_all (a # ks) c))"
      by auto
    then show ?thesis by blast
  next
    case False
    with Cons.prems have "k \<in> set ks" by simp
    from Cons.IH [OF this Cons.prems(2), of ?d] resume_fields(3) [of c a]
    show ?thesis by (auto intro: order_trans)
  qed
qed

lemma run_microtasks_captured:
  assumes "captured_by N hs c"
  shows "captured_by N hs (run_microtasks c)"
proof -
  let ?c = "c\<lparr>stopping := filter (\<lambda>k. \<not> allSettled c k) (stopping c)\<rparr>"
  let ?ks = "filter (allSettled c) (stopping c)"
  have d: "run_microtasks c = resume_all ?ks ?c"
    by (simp add: run_microtasks_def)
  from assms have N: "N \<le> started c"
    by (simp add: captured_by_def)
  with resume_all_fields(3) [of ?c ?ks] have N': "N \<le> started (run_microtasks c)"
    by (simp add: d)
  from assms consider (suspended) "(hs, True) \<in> set (stopping c)"
    | (gone) n where "N \<le> n" "Started n hs \<in> set (actions c)"
    by (auto simp: captured_by_def)
  then show ?thesis
  proof cases
    case suspended
    show ?thesis
    proof (cases "allSettled c (hs, True)")
      case True
      with suspended have "(hs, True) \<in> set ?ks" by simp
      from resume_all_started [OF this, of ?c] N
      show ?thesis
        unfolding captured_by_def d [symmetric] using N' by auto
    next
      case False
      with suspended have "(hs, True) \<in> set (stopping (run_microtasks c))"
        by (simp add: d resume_all_fields)
      with N' show ?thesis by (simp add: captured_by_def)
    qed
  next
    case gone
    with resume_all_fields(4) [of ?c ?ks] have "Started n hs \<in> set (actions (run_microtasks c))"
      by (auto simp: d)
    with gone(1) N' show ?thesis by (auto simp: captured_by_def)
  qed
qed

lemma handle_captured:
  assumes "captured_by N hs c"
  shows "captured_by N hs (handle c e)"
proof (cases e)
  case LanguagesChanged
  from assms have "captured_by N hs (stopServers_begin True c)"
    by (auto simp: captured_by_def stopServers_begin_def)
  then show ?thesis
    unfolding LanguagesChanged by (simp add: run_microtasks_captured)
next
  case Deactivate
  from assms have "captured_by N hs (stopServers_begin False c)"
    by (auto simp: captured_by_def stopServers_begin_def)
  then show ?thesis
    unfolding Deactivate by (simp add: run_microtasks_captured)
next
  case (Settled h out)
  from assms have "captured_by N hs (c\<lparr>settlement := (settlement c)(h \<mapsto> out)\<rparr>)"
    by (auto simp: captured_by_def)
  with assms show ?thesis
    unfolding Settled by (simp add: run_microtasks_captured)
qed

lemma notify_captured: "captured_by (started c) (serverHandles c) (handle c LanguagesChanged)"
proof -
  have "captured_by (started c) (serverHandles c) (stopServers_begin True c)"
    by (simp add: captured_by_def stopServers_begin_def)
  then show ?thesis by (simp add: run_microtasks_captured)
qed

lemma foldl_captured:
  "captured_by N hs d \<Longrightarrow> captured_by N hs (foldl handle d evs)"
  by (induction evs arbitrary: d) (simp_all add: handle_captured)

lemma client_after_split:
  "client_after (before @ LanguagesChanged # later) =
    foldl handle (handle (client_after before) LanguagesChanged) later"
  by (simp add: client_after_def)

text \<open>
  C3, as the code has it. In every state \<^verbatim>\<open>startClient\<close> can reach, whatever
  the interleaving of notifications, deactivations and settlements: every start in the
  history, labelled with the handles its handler found in \<^verbatim>\<open>serverHandles\<close>,
  comes after each of these handles has settled and after the disposal of each
  fulfilled one; only fulfilled handles are disposed, and a rejected one keeps no other
  from being disposed; no promise is lost (it is current, or captured by a suspended
  call, or settled and, if fulfilled, disposed); a suspended call still waits for a
  handle of its own. Every notification captures exactly the handles current when it
  arrives: afterwards its handler is either suspended on them or has started its
  server. Handles started by another handler meanwhile are not among them. A handler
  that begins with no other call suspended, followed by settlements only, starts and
  disposes nothing until its handles have all settled, and then leaves its new server
  as the only current handle; so after notifications that do not overlap exactly one
  handle is current. In any interleaving with no deactivation, once no handler is
  suspended, at least one handle is current and at most as many as there were
  notifications. (A \<^verbatim>\<open>dispose()\<close> is taken not to throw.)
\<close>

theorem restart_awaits_captured_handles:
  "(\<forall>pre n hs post. actions (client_after history) = pre @ Started n hs # post \<longrightarrow>
      (\<forall>h \<in> set hs. settlement (client_after history) h \<noteq> None
         \<and> (settlement (client_after history) h = Some Fulfilled \<longrightarrow> Disposed h \<in> set pre)))
   \<and> (\<forall>h. Disposed h \<in> set (actions (client_after history)) \<longrightarrow>
        settlement (client_after history) h = Some Fulfilled)
   \<and> (\<forall>h < started (client_after history).
        h \<in> set (serverHandles (client_after history))
        \<or> (\<exists>k \<in> set (stopping (client_after history)). h \<in> set (fst k))
        \<or> (settlement (client_after history) h \<noteq> None
            \<and> (settlement (client_after history) h = Some Fulfilled \<longrightarrow>
                 Disposed h \<in> set (actions (client_after history)))))
   \<and> (\<forall>k \<in> set (stopping (client_after history)).
        \<exists>h \<in> set (fst k). settlement (client_after history) h = None)
   \<and> (history = before @ LanguagesChanged # later \<longrightarrow>
        (serverHandles (client_after before), True) \<in> set (stopping (client_after history))
        \<or> (\<exists>n \<ge> started (client_after before).
              Started n (serverHandles (client_after before))
                \<in> set (actions (client_after history))))
   \<and> (stopping c = [] \<and> list_all is_settlement evs \<longrightarrow>
      (if list_all (\<lambda>h. settlement (notify_then evs c) h \<noteq> None) (serverHandles c)
       then serverHandles (notify_then evs c) = [started c]
         \<and> stopping (notify_then evs c) = []
         \<and> actions (notify_then evs c) =
             actions c
             @ map Disposed
                 (filter (\<lambda>h. settlement (notify_then evs c) h = Some Fulfilled)
                    (serverHandles c))
             @ [Started (started c) (serverHandles c)]
       else serverHandles (notify_then evs c) = []
         \<and> stopping (notify_then evs c) = [(serverHandles c, True)]
         \<and> actions (notify_then evs c) = actions c))
   \<and> (separate_rounds rounds startClient \<longrightarrow>
        length (serverHandles (rounds_after rounds startClient)) = 1
        \<and> stopping (rounds_after rounds startClient) = [])
   \<and> (Deactivate \<notin> set history \<and> stopping (client_after history) = [] \<longrightarrow>
        1 \<le> length (serverHandles (client_after history))
        \<and> length (serverHandles (client_after history))
            \<le> max 1 (count_list history LanguagesChanged))"
proof -
  let ?c = "client_after history"
  have ok: "history_ok ?c"
    by (rule client_after_ok)
  have h1: "\<forall>pre n hs post. actions ?c = pre @ Started n hs # post \<longrightarrow>
      (\<forall>h \<in> set hs. settlement ?c h \<noteq> None
         \<and> (settlement ?c h = Some Fulfilled \<longrightarrow> Disposed h \<in> set pre))"
    using ok unfolding history_ok_def started_after_await_def by blast
  have h2: "\<forall>h. Disposed h \<in> set (actions ?c) \<longrightarrow> settlement ?c h = Some Fulfilled"
    using ok unfolding history_ok_def disposed_fulfilled_def by blast
  have h3: "\<forall>h < started ?c.
        h \<in> set (serverHandles ?c)
        \<or> (\<exists>k \<in> set (stopping ?c). h \<in> set (fst k))
        \<or> (settlement ?c h \<noteq> None
            \<and> (settlement ?c h = Some Fulfilled \<longrightarrow> Disposed h \<in> set (actions ?c)))"
    using ok unfolding history_ok_def accounted_def by simp
  have h4: "\<forall>k \<in> set (stopping ?c). \<exists>h \<in> set (fst k). settlement ?c h = None"
    using ok by (auto simp: history_ok_def allSettled_def list_all_iff)
  have h5: "history = before @ LanguagesChanged # later \<longrightarrow>
        (serverHandles (client_after before), True) \<in> set (stopping ?c)
        \<or> (\<exists>n \<ge> started (client_after before).
              Started n (serverHandles (client_after before)) \<in> set (actions ?c))"
  proof
    assume "history = before @ LanguagesChanged # later"
    then have "?c = foldl handle (handle (client_after before) LanguagesChanged) later"
      by (simp add: client_after_split)
    with foldl_captured [OF notify_captured, of "client_after before" later]
    show "(serverHandles (client_after before), True) \<in> set (stopping ?c)
        \<or> (\<exists>n \<ge> started (client_after before).
              Started n (serverHandles (client_after before)) \<in> set (actions ?c))"
      by (simp add: captured_by_def)
  qed
  have a: "stopping c = [] \<and> list_all is_settlement evs \<longrightarrow>
      (if list_all (\<lambda>h. settlement (notify_then evs c) h \<noteq> None) (serverHandles c)
       then serverHandles (notify_then evs c) = [started c]
         \<and> stopping (notify_then evs c) = []
         \<and> actions (notify_then evs c) =
             actions c
             @ map Disposed
                 (filter (\<lambda>h. settlement (notify_then evs c) h = Some Fulfilled)
                    (serverHandles c))
             @ [Started (started c) (serverHandles c)]
       else serverHandles (notify_then evs c) = []
         \<and> stopping (notify_then evs c) = [(serverHandles c, True)]
         \<and> actions (notify_then evs c) = actions c)"
  proof (intro impI, elim conjE)
    assume "stopping c = []" and "list_all is_settlement evs"
    from notify_then_cases [OF this]
    show "if list_all (\<lambda>h. settlement (notify_then evs c) h \<noteq> None) (serverHandles c)
       then serverHandles (notify_then evs c) = [started c]
         \<and> stopping (notify_then evs c) = []
         \<and> actions (notify_then evs c) =
             actions c
             @ map Disposed
                 (filter (\<lambda>h. settlement (notify_then evs c) h = Some Fulfilled)
                    (serverHandles c))
             @ [Started (started c) (serverHandles c)]
       else serverHandles (notify_then evs c) = []
         \<and> stopping (notify_then evs c) = [(serverHandles c, True)]
         \<and> actions (notify_then evs c) = actions c"
      by (auto simp: waiting_for_def restarted_from_def)
  qed
  have start: "stopping startClient = []" "length (serverHandles startClient) = 1"
    by (simp_all add: startClient_def startServer_def)
  have b: "separate_rounds rounds startClient \<longrightarrow>
        length (serverHandles (rounds_after rounds startClient)) = 1
        \<and> stopping (rounds_after rounds startClient) = []"
    using rounds_one_handle [OF start(1), of rounds] start(2)
    by (cases rounds) auto
  have c: "Deactivate \<notin> set history \<and> stopping ?c = [] \<longrightarrow>
        1 \<le> length (serverHandles ?c)
        \<and> length (serverHandles ?c) \<le> max 1 (count_list history LanguagesChanged)"
    using client_total [of history] by (auto simp: restarts_pending_def)
  from h1 h2 h3 h4 h5 a b c show ?thesis
    by (intro conjI)
qed

theorem restart_awaits_captured_handles_witness:
  "actions (client_after [LanguagesChanged, LanguagesChanged, Settled 0 Fulfilled]) =
     [Started 0 [], Started 1 [], Disposed 0, Started 2 [0]]
   \<and> serverHandles (client_after []) = [0]
   \<and> (\<exists>n \<ge> 1. Started n [0]
        \<in> set (actions (client_after [LanguagesChanged, LanguagesChanged, Settled 0 Fulfilled])))
   \<and> settlement (client_after [LanguagesChanged, LanguagesChanged, Settled 0 Fulfilled]) 0
       = Some Fulfilled
   \<and> separate_rounds [[Settled 0 Fulfilled], [Settled 1 Rejected]] startClient
   \<and> length (serverHandles
        (rounds_after [[Settled 0 Fulfilled], [Settled 1 Rejected]] startClient)) = 1
   \<and> length (serverHandles
        (client_after [LanguagesChanged, LanguagesChanged, Settled 0 Fulfilled])) \<le> 2"
proof -
  let ?rounds = "[[Settled 0 Fulfilled], [Settled 1 Rejected]]"
  let ?later = "[LanguagesChanged, Settled 0 Fulfilled]"
  let ?history = "[LanguagesChanged, LanguagesChanged, Settled 0 Fulfilled]"
  note run = client_after_def notify_then_def startClient_def startServer_def
    stopServers_begin_def run_microtasks_def allSettled_def stopServers_resume_def Let_def
  have first: "serverHandles (client_after []) = [0]" "started (client_after []) = 1"
    by (simp_all add: run)
  have acts: "actions (client_after ?history) =
      [Started 0 [], Started 1 [], Disposed 0, Started 2 [0]]"
    by (simp add: run)
  have quiet: "stopping (client_after ?history) = []"
    by (simp add: run)
  have rounds: "separate_rounds ?rounds startClient"
    by (simp add: run)
  have history: "Deactivate \<notin> set ?history" "count_list ?history LanguagesChanged = 2"
      "?history = [] @ LanguagesChanged # ?later"
    by simp_all
  from restart_awaits_captured_handles [of ?history "[]" ?later startClient "[]" ?rounds]
    quiet rounds history first
  have "(\<exists>n \<ge> 1. Started n [0] \<in> set (actions (client_after ?history)))
      \<and> (Disposed 0 \<in> set (actions (client_after ?history)) \<longrightarrow>
           settlement (client_after ?history) 0 = Some Fulfilled)
      \<and> length (serverHandles (rounds_after ?rounds startClient)) = 1
      \<and> length (serverHandles (client_after ?history)) \<le> 2"
    by simp
  with acts first(1) rounds show ?thesis
    by simp
qed

end
